theory Spec2Isabelle
  imports Complex_Main "HOL-Library.Sublist"
begin

section \<open>The chat module of \<open>intelli-policy/src/App.jsx\<close>\<close>

text \<open>
  The development embeds the component \<open>ChatModule\<close>: its React state, the typewriter
  helpers \<open>clearTyping\<close> and \<open>typeMessage\<close>, and \<open>handleSend\<close> with the callbacks it
  registers on the \<open>EventSource\<close> and on the fallback \<open>fetch\<close>.

  Conventions of the embedding.
  \<^item> A JavaScript string is the list of its UTF-16 code units (what \<open>length\<close> and
    \<open>charAt\<close> count), each a natural number; string literals of the source are
    written out as such lists.
  \<^item> A JavaScript number is an IEEE 754 double: a finite double is given by its exact
    rational value, and the two infinities are separate values. The two zeros are not
    told apart (both are falsy and both print as \<open>0\<close>), and \<open>NaN\<close> is left out: no
    JSON text parses to it and no operation below produces it. Arithmetic rounds its
    exact result to the nearest double, ties to even. An absent or \<open>null\<close> field is
    \<open>None\<close>.
  \<^item> A state setter called with a value, and a write to a ref, takes effect where it
    stands. A setter called with an updater function queues the function: React runs
    it when it renders, after the callback that queued it has returned, so what the
    updater reads from a ref is the value the ref has by then.
  \<^item> The text of a query and the fields of the location are well-formed UTF-16, so that
    \<open>encodeURIComponent\<close> accepts them.
  \<^item> Every call of \<open>handleSend\<close> that passes the blank check creates one closure
    (the variables \<open>eventSource\<close>, \<open>hasReceivedData\<close>, \<open>isCompleted\<close>,
    \<open>accumulatedText\<close>); the closures are kept in a list and a callback names its
    closure by the index in that list.
  \<^item> The field \<open>id\<close> of a message (\<open>Date.now()\<close>) is left out.
  \<^item> Payloads have the shape the endpoints document: a \<open>complete\<close> message carries a
    \<open>result\<close> object, and \<open>answer\<close>, \<open>source\<close> and \<open>message\<close> are strings.
\<close>

subsection \<open>Data\<close>

type_synonym jsstring = "nat list"

datatype role = User | Bot

text \<open>A number value: a finite double by its exact value, or an infinity.\<close>

datatype jsnum = Finite rat | PosInf | NegInf

record message =
  msg_type :: role
  msg_text :: jsstring

record location =
  province :: "jsstring option"
  city :: "jsstring option"
  district :: "jsstring option"

record source_entry =
  source :: jsstring
  similarity :: "jsnum option"

text \<open>The result payload; \<open>sources = None\<close> stands for a value that is not an array.\<close>

record result_payload =
  answer :: jsstring
  confidence :: "jsnum option"
  sources :: "source_entry list option"

text \<open>
  The parsed \<open>event.data\<close> of a stream message. \<open>Other\<close> is a message on which the
  \<open>switch\<close> matches no case, or whose data \<open>JSON.parse\<close> rejects: in both cases the
  callback has set \<open>hasReceivedData\<close> and does nothing else.
\<close>

datatype stream_data =
    Chunk jsstring
  | Complete result_payload
  | Error jsstring
  | Other

text \<open>The closure of one call of \<open>handleSend\<close>.\<close>

record session =
  question :: jsstring
  sess_location :: "location option"
  streamUrl :: "(string \<times> jsstring) list"
  closed :: bool
  hasReceivedData :: bool
  isCompleted :: bool
  accumulatedText :: jsstring

text \<open>A fallback request \<open>POST /api/query\<close> that was issued, and whether its promise has settled.\<close>

record fetch_request =
  fetch_session :: nat
  fetch_question :: jsstring
  return_sources :: bool
  fetch_location :: "location option"
  settled :: bool

text \<open>
  The component state. \<open>typingInterval\<close> is \<open>None\<close> for \<open>null\<close>, and otherwise holds
  the string captured by the interval callback together with the interval's delay.
\<close>

record chat_state =
  messages :: "message list"
  input :: jsstring
  isThinking :: bool
  userLocation :: "location option"
  typingMessage :: jsstring
  isTyping :: bool
  typingIndex :: nat
  typingInterval :: "(jsstring \<times> nat) option"
  sessions :: "session list"
  fetches :: "fetch_request list"

subsection \<open>Numbers\<close>

text \<open>
  Rounding of a positive rational to the nearest double. \<open>up2\<close> and \<open>down2\<close> look for
  the exponent \<open>q\<close> of the spacing of the doubles around \<open>x\<close>: the least one with
  \<open>x < 2 ^ 53 * 2 powi q\<close>, but not below \<open>- 1074\<close>, the spacing of the subnormal doubles.
  The multiple of \<open>2 powi q\<close> nearest to \<open>x\<close>, ties to the even multiple, is the result,
  and the result is infinite from \<open>2 ^ 1024\<close> on.
\<close>

definition round_half_even :: "rat \<Rightarrow> int" where
  "round_half_even x =
     (let f = \<lfloor>x\<rfloor>; d = x - of_int f
      in if d < 1 / 2 then f else if 1 / 2 < d then f + 1 else if even f then f else f + 1)"

function up2 :: "rat \<Rightarrow> int \<Rightarrow> int" where
  "up2 x q = (if 2 ^ 53 * 2 powi q \<le> x then up2 x (q + 1) else q)"
  by pat_completeness auto
termination
proof (relation "measure (\<lambda>(x, q). nat \<lceil>x / 2 powi q\<rceil>)")
  show "wf (measure (\<lambda>(x, q). nat \<lceil>x / 2 powi q\<rceil>))" by simp
next
  fix x :: rat and q :: int
  assume a: "2 ^ 53 * 2 powi q \<le> x"
  define t where "t = x / 2 powi q"
  have p: "(0::rat) < 2 powi q" by simp
  have t: "2 ^ 53 \<le> t"
    unfolding t_def using a p by (simp add: pos_le_divide_eq)
  have h: "x / 2 powi (q + 1) = t / 2"
    unfolding t_def by (simp add: power_int_add)
  have "\<lceil>t / 2\<rceil> < \<lceil>t\<rceil>"
  proof -
    have "of_int \<lceil>t / 2\<rceil> < t / 2 + 1" by linarith
    also have "\<dots> \<le> t" using t by simp
    also have "\<dots> \<le> of_int \<lceil>t\<rceil>" by linarith
    finally show ?thesis by simp
  qed
  moreover have "0 < \<lceil>t\<rceil>" using t by (simp add: ceiling_less_iff less_ceiling_iff)
  ultimately have "nat \<lceil>x / 2 powi (q + 1)\<rceil> < nat \<lceil>x / 2 powi q\<rceil>"
    unfolding h unfolding t_def by simp
  then show "((x, q + 1), (x, q)) \<in> measure (\<lambda>(x, q). nat \<lceil>x / 2 powi q\<rceil>)"
    by simp
qed

function down2 :: "rat \<Rightarrow> int \<Rightarrow> int" where
  "down2 x q = (if x < 2 ^ 52 * 2 powi q \<and> - 1074 < q then down2 x (q - 1) else q)"
  by pat_completeness auto
termination
  by (relation "measure (\<lambda>(x, q). nat (q + 1074))") auto

declare up2.simps [simp del] down2.simps [simp del]

definition negate :: "jsnum \<Rightarrow> jsnum" where
  "negate x = (case x of Finite a \<Rightarrow> Finite (- a) | PosInf \<Rightarrow> NegInf | NegInf \<Rightarrow> PosInf)"

definition to_double_pos :: "rat \<Rightarrow> jsnum" where
  "to_double_pos x =
     (let q = down2 x (up2 x 0);
          v = of_int (round_half_even (x / 2 powi q)) * 2 powi q
      in if 2 ^ 1024 \<le> v then PosInf else Finite v)"

definition to_double :: "rat \<Rightarrow> jsnum" where
  "to_double x =
     (if x = 0 then Finite 0
      else if 0 < x then to_double_pos x
      else negate (to_double_pos (- x)))"

text \<open>The number that \<open>JSON.parse\<close> gives for a numeral whose value is \<open>x\<close>.\<close>

definition json_number :: "rat \<Rightarrow> jsnum" where
  "json_number x = to_double x"

text \<open>
  \<open>x * c\<close> and \<open>x / c\<close> for a literal \<open>c\<close> that is a positive double (here \<open>1000\<close> and
  \<open>10\<close>), and \<open>Math.round(x)\<close>: the integer nearest to \<open>x\<close>, the larger one at a tie.
\<close>

definition js_times :: "jsnum \<Rightarrow> rat \<Rightarrow> jsnum" where
  "js_times x c =
     (case x of Finite a \<Rightarrow> to_double (a * c) | PosInf \<Rightarrow> PosInf | NegInf \<Rightarrow> NegInf)"

definition js_divide :: "jsnum \<Rightarrow> rat \<Rightarrow> jsnum" where
  "js_divide x c =
     (case x of Finite a \<Rightarrow> to_double (a / c) | PosInf \<Rightarrow> PosInf | NegInf \<Rightarrow> NegInf)"

definition Math_round :: "jsnum \<Rightarrow> jsnum" where
  "Math_round x =
     (case x of
        Finite a \<Rightarrow> Finite (of_int \<lfloor>a + 1 / 2\<rfloor>)
      | PosInf \<Rightarrow> PosInf
      | NegInf \<Rightarrow> NegInf)"

text \<open>\<open>v || 0\<close>\<close>

definition or_zero :: "jsnum option \<Rightarrow> jsnum" where
  "or_zero v = (case v of None \<Rightarrow> Finite 0 | Some x \<Rightarrow> x)"

subsection \<open>The text of a number\<close>

fun digits :: "nat \<Rightarrow> jsstring" where
  "digits n = (if n < 10 then [48 + n] else digits (n div 10) @ [48 + n mod 10])"

declare digits.simps [simp del]

text \<open>The decimal exponent of a positive \<open>x\<close>: the \<open>n\<close> with \<open>10 powi (n - 1) \<le> x < 10 powi n\<close>.\<close>

function dec_up :: "rat \<Rightarrow> int \<Rightarrow> int" where
  "dec_up x n = (if 10 powi n \<le> x then dec_up x (n + 1) else n)"
  by pat_completeness auto
termination
proof (relation "measure (\<lambda>(x, n). nat \<lfloor>x / 10 powi n\<rfloor>)")
  show "wf (measure (\<lambda>(x, n). nat \<lfloor>x / 10 powi n\<rfloor>))" by simp
next
  fix x :: rat and n :: int
  assume a: "10 powi n \<le> x"
  define t where "t = x / 10 powi n"
  have p: "(0::rat) < 10 powi n" by simp
  have t: "1 \<le> t"
    unfolding t_def using a p by (simp add: pos_le_divide_eq)
  have h: "x / 10 powi (n + 1) = t / 10"
    unfolding t_def by (simp add: power_int_add)
  have f: "1 \<le> \<lfloor>t\<rfloor>" using t by (simp add: le_floor_iff)
  have "t < of_int \<lfloor>t\<rfloor> + 1" by linarith
  then have "t / 10 < of_int \<lfloor>t\<rfloor>" using f by linarith
  then have "\<lfloor>t / 10\<rfloor> < \<lfloor>t\<rfloor>" by (simp add: floor_less_iff)
  then have "nat \<lfloor>x / 10 powi (n + 1)\<rfloor> < nat \<lfloor>x / 10 powi n\<rfloor>"
    unfolding h unfolding t_def using f [unfolded t_def] by linarith
  then show "((x, n + 1), (x, n)) \<in> measure (\<lambda>(x, n). nat \<lfloor>x / 10 powi n\<rfloor>)"
    by (simp only: in_measure prod.case)
qed

function dec_down :: "rat \<Rightarrow> int \<Rightarrow> int" where
  "dec_down x n = (if 0 < x \<and> x < 10 powi (n - 1) then dec_down x (n - 1) else n)"
  by pat_completeness auto
termination
proof (relation "measure (\<lambda>(x, n). nat \<lfloor>10 powi (n - 1) / x\<rfloor>)")
  show "wf (measure (\<lambda>(x, n). nat \<lfloor>10 powi (n - 1) / x\<rfloor>))" by simp
next
  fix x :: rat and n :: int
  assume a: "0 < x \<and> x < 10 powi (n - 1)"
  define t where "t = 10 powi (n - 1) / x"
  have t: "1 \<le> t"
    unfolding t_def using a by (simp add: pos_le_divide_eq)
  have h: "10 powi (n - 1 - 1) / x = t / 10"
    unfolding t_def by (simp add: power_int_diff)
  have f: "1 \<le> \<lfloor>t\<rfloor>" using t by (simp add: le_floor_iff)
  have "t < of_int \<lfloor>t\<rfloor> + 1" by linarith
  then have "t / 10 < of_int \<lfloor>t\<rfloor>" using f by linarith
  then have "\<lfloor>t / 10\<rfloor> < \<lfloor>t\<rfloor>" by (simp add: floor_less_iff)
  then have "nat \<lfloor>10 powi (n - 1 - 1) / x\<rfloor> < nat \<lfloor>10 powi (n - 1) / x\<rfloor>"
    unfolding h unfolding t_def using f [unfolded t_def] by linarith
  then show "((x, n - 1), (x, n)) \<in> measure (\<lambda>(x, n). nat \<lfloor>10 powi (n - 1) / x\<rfloor>)"
    by (simp only: in_measure prod.case)
qed

declare dec_up.simps [simp del] dec_down.simps [simp del]

definition dec_exp :: "rat \<Rightarrow> int" where
  "dec_exp x = dec_down x (dec_up x 0)"

text \<open>
  The decimal with the fewest significant digits that reads back as the positive double
  \<open>x\<close>, and among those with that many digits the one nearest to \<open>x\<close>. With \<open>k\<close>
  digits the candidates are the two multiples of \<open>10 powi (n - k)\<close> around \<open>x\<close>; seventeen
  digits always suffice for a double.
\<close>

function shortest_from :: "rat \<Rightarrow> int \<Rightarrow> nat \<Rightarrow> rat" where
  "shortest_from x n k =
     (let u = 10 powi (n - int k);
          lo = of_int \<lfloor>x / u\<rfloor> * u;
          hi = lo + u;
          okl = (to_double lo = Finite x);
          okh = (to_double hi = Finite x)
      in if okl \<and> okh then (if x - lo \<le> hi - x then lo else hi)
         else if okl then lo
         else if okh then hi
         else if k < 17 then shortest_from x n (k + 1)
         else lo)"
  by pat_completeness auto
termination
  by (relation "measure (\<lambda>(x, n, k). 17 - k)") auto

declare shortest_from.simps [simp del]

fun strip_zeros :: "nat \<Rightarrow> nat" where
  "strip_zeros s = (if s \<noteq> 0 \<and> s mod 10 = 0 then strip_zeros (s div 10) else s)"

declare strip_zeros.simps [simp del]

text \<open>
  \<open>Number::toString\<close> for a positive double: with \<open>ds\<close> the \<open>k\<close> significant digits and
  \<open>n\<close> the decimal exponent, the digits are followed by zeros, or split by the decimal
  point, or preceded by \<open>0.\<close> and zeros, or written with an exponent.
\<close>

definition pos_to_string :: "rat \<Rightarrow> jsstring" where
  "pos_to_string x =
     (let v = shortest_from x (dec_exp x) 1;
          n = dec_exp v;
          ds = digits (strip_zeros (nat \<lfloor>v * 10 powi (17 - n)\<rfloor>));
          k = int (length ds)
      in if k \<le> n \<and> n \<le> 21 then ds @ replicate (nat (n - k)) 48
         else if 0 < n \<and> n \<le> 21 then take (nat n) ds @ [46] @ drop (nat n) ds
         else if - 6 < n \<and> n \<le> 0 then [48, 46] @ replicate (nat (- n)) 48 @ ds
         else (let e = n - 1;
                   es = (if 0 \<le> e then [43] else [45]) @ digits (nat \<bar>e\<bar>)
               in if k = 1 then ds @ [101] @ es
                  else take 1 ds @ [46] @ drop 1 ds @ [101] @ es))"

text \<open>The text of a number inside a template literal.\<close>

definition number_to_string :: "jsnum \<Rightarrow> jsstring" where
  "number_to_string x =
     (case x of
        PosInf \<Rightarrow> [73, 110, 102, 105, 110, 105, 116, 121]
      | NegInf \<Rightarrow> [45, 73, 110, 102, 105, 110, 105, 116, 121]
      | Finite a \<Rightarrow>
          if a = 0 then [48]
          else if a < 0 then [45] @ pos_to_string (- a)
          else pos_to_string a)"

subsection \<open>The text of the reply\<close>

text \<open>The text of \<open>Math.round((v || 0) * 1000) / 10\<close> inside a template literal.\<close>

definition percent_text :: "jsnum option \<Rightarrow> jsstring" where
  "percent_text v = number_to_string (js_divide (Math_round (js_times (or_zero v) 1000)) 10)"

fun join :: "jsstring \<Rightarrow> jsstring list \<Rightarrow> jsstring" where
  "join sep [] = []"
| "join sep [x] = x"
| "join sep (x # y # ys) = x @ sep @ join sep (y # ys)"

text \<open>\<open>`${i + 1}. ${s.source} (...: ${...}%)`\<close>\<close>

definition source_line :: "nat \<times> source_entry \<Rightarrow> jsstring" where
  "source_line p =
     digits (fst p + 1) @ [46, 32] @ source (snd p)
       @ [32, 40, 30456, 20851, 24230, 58, 32] @ percent_text (similarity (snd p)) @ [37, 41]"

definition sourcesText :: "source_entry list option \<Rightarrow> jsstring" where
  "sourcesText srcs =
     (case srcs of
        None \<Rightarrow> []
      | Some xs \<Rightarrow>
          if xs \<noteq> []
          then [10, 10, 21442, 32771, 26469, 28304, 58, 10]
                 @ join [10] (map source_line (enumerate 0 (take 2 xs)))
          else [])"

definition reply :: "result_payload \<Rightarrow> jsstring" where
  "reply r =
     answer r @ [10, 10, 32622, 20449, 24230, 58, 32] @ percent_text (confidence r) @ [37]
       @ sourcesText (sources r)"

definition error_text :: "jsstring \<Rightarrow> jsstring" where
  "error_text m = [38169, 35823, 58, 32] @ m"

definition unavailable_text :: jsstring where
  "unavailable_text =
     [25265, 27465, 65292, 26381, 21153, 26242, 26102, 19981, 21487, 29992, 65292,
      35831, 31245, 21518, 37325, 35797, 12290]"

definition bot_message :: "jsstring \<Rightarrow> message" where
  "bot_message t = \<lparr>msg_type = Bot, msg_text = t\<rparr>"

definition user_message :: "jsstring \<Rightarrow> message" where
  "user_message t = \<lparr>msg_type = User, msg_text = t\<rparr>"

subsection \<open>The typewriter\<close>

definition clearTyping :: "chat_state \<Rightarrow> chat_state" where
  "clearTyping s =
     s\<lparr>typingInterval := None, isTyping := False, typingMessage := [], typingIndex := 0\<rparr>"

text \<open>\<open>message.charAt(i)\<close>: the empty string out of range.\<close>

definition charAt :: "jsstring \<Rightarrow> nat \<Rightarrow> jsstring" where
  "charAt m i = (if i < length m then [m ! i] else [])"

definition typeMessage :: "jsstring \<Rightarrow> chat_state \<Rightarrow> chat_state" where
  "typeMessage m s =
     (clearTyping s)\<lparr>isTyping := True, typingMessage := [], typingIndex := 0,
                     typingInterval := Some (m, 30)\<rparr>"

text \<open>
  One firing of the interval callback, with the render that follows it; nothing fires
  when no interval is set. The callback queues the updater
  \<open>prev => prev + message.charAt(typingIndex.current)\<close> and then increments
  \<open>typingIndex.current\<close>; the updater runs at the render, so the character it appends
  is the one at the incremented index.
\<close>

definition tick :: "chat_state \<Rightarrow> chat_state" where
  "tick s =
     (case typingInterval s of
        None \<Rightarrow> s
      | Some (m, d) \<Rightarrow>
          if typingIndex s < length m
          then (let s1 = s\<lparr>typingIndex := typingIndex s + 1\<rparr>
                in s1\<lparr>typingMessage := typingMessage s1 @ charAt m (typingIndex s1)\<rparr>)
          else clearTyping s)"

fun ticks :: "nat \<Rightarrow> chat_state \<Rightarrow> chat_state" where
  "ticks 0 s = s"
| "ticks (Suc n) s = ticks n (tick s)"

subsection \<open>\<open>handleSend\<close> and its callbacks\<close>

text \<open>The white space and line terminators that \<open>String.prototype.trim\<close> removes.\<close>

definition is_ws :: "nat \<Rightarrow> bool" where
  "is_ws c \<longleftrightarrow>
     c \<in> {9, 10, 11, 12, 13, 32, 160, 5760, 8232, 8233, 8239, 8287, 12288, 65279}
       \<or> (8192 \<le> c \<and> c \<le> 8202)"

text \<open>\<open>!text.trim()\<close>\<close>

definition blank :: "jsstring \<Rightarrow> bool" where
  "blank t = list_all is_ws t"

text \<open>Truthiness of a field that is a string, \<open>null\<close> or absent.\<close>

definition truthy :: "jsstring option \<Rightarrow> bool" where
  "truthy v = (case v of None \<Rightarrow> False | Some t \<Rightarrow> t \<noteq> [])"

definition url_param :: "string \<Rightarrow> jsstring option \<Rightarrow> (string \<times> jsstring) list" where
  "url_param k v = (case v of None \<Rightarrow> [] | Some t \<Rightarrow> if t \<noteq> [] then [(k, t)] else [])"

text \<open>
  The query parameters of the stream URL, in the order they are appended, before
  \<open>encodeURIComponent\<close>.
\<close>

definition build_streamUrl :: "jsstring \<Rightarrow> location option \<Rightarrow> (string \<times> jsstring) list" where
  "build_streamUrl t loc =
     [(''question'', t)]
       @ (case loc of
            None \<Rightarrow> []
          | Some l \<Rightarrow>
              if truthy (city l)
              then url_param ''city'' (city l) @ url_param ''province'' (province l)
                     @ url_param ''district'' (district l)
              else [])"

definition new_session :: "jsstring \<Rightarrow> location option \<Rightarrow> session" where
  "new_session t loc =
     \<lparr>question = t, sess_location = loc, streamUrl = build_streamUrl t loc,
      closed = False, hasReceivedData = False, isCompleted = False, accumulatedText = []\<rparr>"

definition handleSend :: "jsstring \<Rightarrow> chat_state \<Rightarrow> chat_state" where
  "handleSend t s =
     (if blank t then s
      else s\<lparr>messages := messages s @ [user_message t],
             input := [],
             isThinking := True,
             sessions := sessions s @ [new_session t (userLocation s)]\<rparr>)"

definition upd_session :: "nat \<Rightarrow> (session \<Rightarrow> session) \<Rightarrow> chat_state \<Rightarrow> chat_state" where
  "upd_session sid f s = s\<lparr>sessions := (sessions s)[sid := f (sessions s ! sid)]\<rparr>"

text \<open>\<open>eventSource.onmessage\<close> of closure \<open>sid\<close>, on a message whose data parses to \<open>d\<close>.\<close>

definition onmessage :: "nat \<Rightarrow> stream_data \<Rightarrow> chat_state \<Rightarrow> chat_state" where
  "onmessage sid d s =
     (let s1 = upd_session sid (\<lambda>c. c\<lparr>hasReceivedData := True\<rparr>) s
      in case d of
           Chunk content \<Rightarrow>
             (let s2 = upd_session sid (\<lambda>c. c\<lparr>accumulatedText := accumulatedText c @ content\<rparr>) s1
              in s2\<lparr>typingMessage := accumulatedText (sessions s2 ! sid), isTyping := True\<rparr>)
         | Complete result \<Rightarrow>
             (let s2 = upd_session sid (\<lambda>c. c\<lparr>isCompleted := True\<rparr>) s1;
                  s3 = upd_session sid (\<lambda>c. c\<lparr>closed := True\<rparr>) s2;
                  s4 = clearTyping s3;
                  s5 = s4\<lparr>messages := messages s4 @ [bot_message (reply result)]\<rparr>
              in s5\<lparr>isThinking := False\<rparr>)
         | Error m \<Rightarrow>
             (let s2 = upd_session sid (\<lambda>c. c\<lparr>isCompleted := True\<rparr>) s1;
                  s3 = upd_session sid (\<lambda>c. c\<lparr>closed := True\<rparr>) s2;
                  s4 = clearTyping s3;
                  s5 = s4\<lparr>messages := messages s4 @ [bot_message (error_text m)]\<rparr>
              in s5\<lparr>isThinking := False\<rparr>)
         | Other \<Rightarrow> s1)"

text \<open>\<open>eventSource.onerror\<close> of closure \<open>sid\<close>.\<close>

definition onerror :: "nat \<Rightarrow> chat_state \<Rightarrow> chat_state" where
  "onerror sid s =
     (let s1 = upd_session sid (\<lambda>c. c\<lparr>closed := True\<rparr>) s;
          c = sessions s1 ! sid
      in if \<not> hasReceivedData c \<and> \<not> isCompleted c
         then (let s2 = clearTyping s1
               in s2\<lparr>fetches := fetches s2 @
                        [\<lparr>fetch_session = sid, fetch_question = question c,
                          return_sources = True, fetch_location = sess_location c,
                          settled = False\<rparr>]\<rparr>)
         else if \<not> isCompleted c
         then s1\<lparr>isThinking := False\<rparr>
         else s1)"

text \<open>The \<open>then\<close>, \<open>catch\<close> and \<open>finally\<close> callbacks of the fallback \<open>fetch\<close>.\<close>

definition fetch_then :: "result_payload \<Rightarrow> chat_state \<Rightarrow> chat_state" where
  "fetch_then d s = s\<lparr>messages := messages s @ [bot_message (reply d)]\<rparr>"

definition fetch_catch :: "chat_state \<Rightarrow> chat_state" where
  "fetch_catch s = s\<lparr>messages := messages s @ [bot_message unavailable_text]\<rparr>"

definition fetch_finally :: "chat_state \<Rightarrow> chat_state" where
  "fetch_finally s = s\<lparr>isThinking := False\<rparr>"

subsection \<open>The event loop\<close>

text \<open>
  What the browser can deliver to the component. A closed \<open>EventSource\<close> dispatches
  nothing, and the promise of a \<open>fetch\<close> settles once: \<open>FetchResolved\<close> is an \<open>ok\<close>
  response whose body parses to the payload, \<open>FetchRejected\<close> is every other outcome.
  \<open>Send None\<close> is \<open>handleSend()\<close> with the default argument \<open>input\<close>.
\<close>

datatype event =
    Send "jsstring option"
  | SetInput jsstring
  | SetUserLocation location
  | StreamMessage nat stream_data
  | StreamError nat
  | FetchResolved nat result_payload
  | FetchRejected nat
  | IntervalFired

definition stream_open :: "nat \<Rightarrow> chat_state \<Rightarrow> bool" where
  "stream_open sid s \<longleftrightarrow> sid < length (sessions s) \<and> \<not> closed (sessions s ! sid)"

definition fetches_of :: "nat \<Rightarrow> chat_state \<Rightarrow> fetch_request list" where
  "fetches_of sid s = filter (\<lambda>f. fetch_session f = sid) (fetches s)"

definition pending :: "nat \<Rightarrow> chat_state \<Rightarrow> bool" where
  "pending sid s = list_ex (\<lambda>f. \<not> settled f) (fetches_of sid s)"

definition settle :: "nat \<Rightarrow> chat_state \<Rightarrow> chat_state" where
  "settle sid s =
     s\<lparr>fetches := map (\<lambda>f. if fetch_session f = sid then f\<lparr>settled := True\<rparr> else f) (fetches s)\<rparr>"

fun step :: "event \<Rightarrow> chat_state \<Rightarrow> chat_state" where
  "step (Send t) s = handleSend (case t of None \<Rightarrow> input s | Some x \<Rightarrow> x) s"
| "step (SetInput t) s = s\<lparr>input := t\<rparr>"
| "step (SetUserLocation l) s = s\<lparr>userLocation := Some l\<rparr>"
| "step (StreamMessage sid d) s = (if stream_open sid s then onmessage sid d s else s)"
| "step (StreamError sid) s = (if stream_open sid s then onerror sid s else s)"
| "step (FetchResolved sid d) s =
     (if pending sid s then fetch_finally (fetch_then d (settle sid s)) else s)"
| "step (FetchRejected sid) s =
     (if pending sid s then fetch_finally (fetch_catch (settle sid s)) else s)"
| "step IntervalFired s = tick s"

fun run :: "event list \<Rightarrow> chat_state \<Rightarrow> chat_state" where
  "run [] s = s"
| "run (e # es) s = run es (step e s)"

text \<open>The state of a freshly mounted component, for a given welcome text.\<close>

definition initial :: "jsstring \<Rightarrow> chat_state" where
  "initial welcome =
     \<lparr>messages = [bot_message welcome], input = [], isThinking = False, userLocation = None,
      typingMessage = [], isTyping = False, typingIndex = 0, typingInterval = None,
      sessions = [], fetches = []\<rparr>"

subsection \<open>Observations on traces\<close>

text \<open>The closure whose callback an event runs, if any.\<close>

fun target :: "event \<Rightarrow> nat option" where
  "target (StreamMessage sid d) = Some sid"
| "target (StreamError sid) = Some sid"
| "target (FetchResolved sid d) = Some sid"
| "target (FetchRejected sid) = Some sid"
| "target e = None"

definition bot_count :: "message list \<Rightarrow> nat" where
  "bot_count ms = length (filter (\<lambda>m. msg_type m = Bot) ms)"

text \<open>
  The number of assistant messages that the callbacks of closure \<open>sid\<close> append to the
  transcript along a trace.
\<close>

fun replies :: "nat \<Rightarrow> event list \<Rightarrow> chat_state \<Rightarrow> nat" where
  "replies sid [] s = 0"
| "replies sid (e # es) s =
     (if target e = Some sid
      then bot_count (messages (step e s)) - bot_count (messages s) else 0)
       + replies sid es (step e s)"

text \<open>The bodies of the fallback requests issued by closure \<open>sid\<close>.\<close>

definition requests_of :: "nat \<Rightarrow> chat_state \<Rightarrow> (jsstring \<times> bool \<times> location option) list" where
  "requests_of sid s =
     map (\<lambda>f. (fetch_question f, return_sources f, fetch_location f)) (fetches_of sid s)"

text \<open>The query of closure \<open>sid\<close> has an outcome: its stream completed, or its fallback settled.\<close>

definition finished :: "nat \<Rightarrow> chat_state \<Rightarrow> bool" where
  "finished sid s \<longleftrightarrow>
     isCompleted (sessions s ! sid) \<or> (fetches_of sid s \<noteq> [] \<and> \<not> pending sid s)"

text \<open>
  The shape every closure keeps: a completed stream is closed, and a fallback request exists
  only for a closed, uncompleted stream, and then there is one.
\<close>

definition consistent :: "nat \<Rightarrow> chat_state \<Rightarrow> bool" where
  "consistent sid s \<longleftrightarrow>
     sid < length (sessions s)
     \<and> (isCompleted (sessions s ! sid) \<longrightarrow> closed (sessions s ! sid))
     \<and> (fetches_of sid s \<noteq> [] \<longrightarrow>
          closed (sessions s ! sid) \<and> \<not> isCompleted (sessions s ! sid)
          \<and> length (fetches_of sid s) = 1)"

definition chunk_events :: "nat \<Rightarrow> jsstring list \<Rightarrow> event list" where
  "chunk_events sid cs = map (\<lambda>c. StreamMessage sid (Chunk c)) cs"

text \<open>
  The contents of the chunk messages of closure \<open>sid\<close> in a trace, in order; and the
  events that are either a chunk message or not a callback of closure \<open>sid\<close> at all.
\<close>

fun chunks_of :: "nat \<Rightarrow> event list \<Rightarrow> jsstring list" where
  "chunks_of sid [] = []"
| "chunks_of sid (StreamMessage a (Chunk c) # es) =
     (if a = sid then c # chunks_of sid es else chunks_of sid es)"
| "chunks_of sid (e # es) = chunks_of sid es"

fun chunk_or_foreign :: "nat \<Rightarrow> event \<Rightarrow> bool" where
  "chunk_or_foreign sid (StreamMessage a (Chunk c)) = True"
| "chunk_or_foreign sid e = (target e \<noteq> Some sid)"

subsection \<open>Concrete inputs\<close>

text \<open>The question, the chunks and the result payload of the end-to-end scenario.\<close>

definition example_question :: jsstring where
  "example_question =
     [27982, 21335, 24066, 23478, 30005, 20197, 26087, 25442, 26032, 34917, 36148, 26631,
      20934, 26159, 22810, 23569, 65311]"

definition example_chunk1 :: jsstring where
  "example_chunk1 = [26681, 25454, 25919, 31574, 65292]"

definition example_chunk2 :: jsstring where
  "example_chunk2 = [34917, 36148, 27604, 20363, 20026, 49, 48, 37, 12290]"

definition example_source :: source_entry where
  "example_source = \<lparr>source = [32454, 21017, 46, 112, 100, 102], similarity = Some (json_number (95 / 100))\<rparr>"

definition example_result :: result_payload where
  "example_result =
     \<lparr>answer = [26681, 25454, 25919, 31574, 65292, 34917, 36148, 27604, 20363, 20026,
                49, 48, 37, 12290],
      confidence = Some (json_number (92 / 100)),
      sources = Some [example_source]\<rparr>"

text \<open>One query submitted, and two queries submitted with both streams still open.\<close>

definition one_pending :: chat_state where
  "one_pending = run [Send (Some [97])] (initial [])"

definition two_pending :: chat_state where
  "two_pending = run [Send (Some [97]), Send (Some [98])] (initial [])"

section \<open>Properties\<close>

subsection \<open>Auxiliary facts\<close>

lemma floor_rat_divide_numeral:
  "\<lfloor>(numeral a :: rat) / numeral b\<rfloor> = numeral a div numeral b"
  using floor_divide_of_int_eq [of "numeral a" "numeral b", where ?'a = rat] by simp

lemma floor_rat_one_divide_numeral:
  "\<lfloor>(1 :: rat) / numeral b\<rfloor> = 1 div numeral b"
  using floor_divide_of_int_eq [of 1 "numeral b", where ?'a = rat] by simp

lemmas double_defs =
  to_double_def to_double_pos_def negate_def round_half_even_def up2.simps down2.simps
  Let_def floor_rat_divide_numeral floor_rat_one_divide_numeral

lemma percent_text_None: "percent_text None = [48]"
  by (simp add: percent_text_def or_zero_def js_times_def js_divide_def Math_round_def
      to_double_def number_to_string_def floor_rat_one_divide_numeral)

lemma percent_text_zero: "percent_text (Some (Finite 0)) = [48]"
  by (simp add: percent_text_def or_zero_def js_times_def js_divide_def Math_round_def
      to_double_def number_to_string_def floor_rat_one_divide_numeral)

text \<open>The percentages of some confidences, each step of the computation on its own.\<close>

lemma c92_parse: "json_number (92 / 100) = Finite (8286623314361713 / 9007199254740992)"
  by (simp add: json_number_def double_defs)

lemma c92_times: "js_times (Finite (8286623314361713 / 9007199254740992)) 1000 = Finite (920)"
  by (simp add: js_times_def double_defs)

lemma c92_round: "Math_round (Finite (920)) = Finite (920)"
  by (simp add: Math_round_def floor_rat_divide_numeral)

lemma c92_divide: "js_divide (Finite (920)) 10 = Finite (92)"
  by (simp add: js_divide_def double_defs)

lemma c92_exp: "dec_exp (92) = 2"
  by (simp add: dec_exp_def dec_up.simps dec_down.simps)

lemma c92_shortest: "shortest_from (92) 2 (Suc 0) = 92"
  by (simp add: shortest_from.simps double_defs)

lemma c92_text: "number_to_string (Finite (92)) = [57, 50]"
  by (simp add: number_to_string_def pos_to_string_def c92_exp c92_shortest
      digits.simps strip_zeros.simps Let_def)

lemma c92_percent: "percent_text (Some (json_number (92 / 100))) = [57, 50]"
  by (simp only: percent_text_def or_zero_def option.case c92_parse c92_times
      c92_round c92_divide c92_text)

lemma c95_parse: "json_number (95 / 100) = Finite (4278419646001971 / 4503599627370496)"
  by (simp add: json_number_def double_defs)

lemma c95_times: "js_times (Finite (4278419646001971 / 4503599627370496)) 1000 = Finite (950)"
  by (simp add: js_times_def double_defs)

lemma c95_round: "Math_round (Finite (950)) = Finite (950)"
  by (simp add: Math_round_def floor_rat_divide_numeral)

lemma c95_divide: "js_divide (Finite (950)) 10 = Finite (95)"
  by (simp add: js_divide_def double_defs)

lemma c95_exp: "dec_exp (95) = 2"
  by (simp add: dec_exp_def dec_up.simps dec_down.simps)

lemma c95_shortest: "shortest_from (95) 2 (Suc 0) = 95"
  by (simp add: shortest_from.simps double_defs)

lemma c95_text: "number_to_string (Finite (95)) = [57, 53]"
  by (simp add: number_to_string_def pos_to_string_def c95_exp c95_shortest
      digits.simps strip_zeros.simps Let_def)

lemma c95_percent: "percent_text (Some (json_number (95 / 100))) = [57, 53]"
  by (simp only: percent_text_def or_zero_def option.case c95_parse c95_times
      c95_round c95_divide c95_text)

lemma c925_parse: "json_number (925 / 1000) = Finite (4165829655317709 / 4503599627370496)"
  by (simp add: json_number_def double_defs)

lemma c925_times: "js_times (Finite (4165829655317709 / 4503599627370496)) 1000 = Finite (925)"
  by (simp add: js_times_def double_defs)

lemma c925_round: "Math_round (Finite (925)) = Finite (925)"
  by (simp add: Math_round_def floor_rat_divide_numeral)

lemma c925_divide: "js_divide (Finite (925)) 10 = Finite (185 / 2)"
  by (simp add: js_divide_def double_defs)

lemma c925_exp: "dec_exp (185 / 2) = 2"
  by (simp add: dec_exp_def dec_up.simps dec_down.simps)

lemma c925_shortest: "shortest_from (185 / 2) 2 (Suc 0) = 185 / 2"
  by (simp add: shortest_from.simps double_defs)

lemma c925_text: "number_to_string (Finite (185 / 2)) = [57, 50, 46, 53]"
  by (simp add: number_to_string_def pos_to_string_def c925_exp c925_shortest
      digits.simps strip_zeros.simps Let_def)

lemma c925_percent: "percent_text (Some (json_number (925 / 1000))) = [57, 50, 46, 53]"
  by (simp only: percent_text_def or_zero_def option.case c925_parse c925_times
      c925_round c925_divide c925_text)

lemma c5005_parse: "json_number (5005 / 10000) = Finite (2254051613498933 / 4503599627370496)"
  by (simp add: json_number_def double_defs)

lemma c5005_times: "js_times (Finite (2254051613498933 / 4503599627370496)) 1000 = Finite (8804889115230207 / 17592186044416)"
  by (simp add: js_times_def double_defs)

lemma c5005_round: "Math_round (Finite (8804889115230207 / 17592186044416)) = Finite (500)"
  by (simp add: Math_round_def floor_rat_divide_numeral)

lemma c5005_divide: "js_divide (Finite (500)) 10 = Finite (50)"
  by (simp add: js_divide_def double_defs)

lemma c5005_exp: "dec_exp (50) = 2"
  by (simp add: dec_exp_def dec_up.simps dec_down.simps)

lemma c5005_shortest: "shortest_from (50) 2 (Suc 0) = 50"
  by (simp add: shortest_from.simps double_defs)

lemma c5005_text: "number_to_string (Finite (50)) = [53, 48]"
  by (simp add: number_to_string_def pos_to_string_def c5005_exp c5005_shortest
      digits.simps strip_zeros.simps Let_def)

lemma c5005_percent: "percent_text (Some (json_number (5005 / 10000))) = [53, 48]"
  by (simp only: percent_text_def or_zero_def option.case c5005_parse c5005_times
      c5005_round c5005_divide c5005_text)

lemma c0005_parse: "json_number (5 / 10000) = Finite (1152921504606847 / 2305843009213693952)"
  by (simp add: json_number_def double_defs)

lemma c0005_times: "js_times (Finite (1152921504606847 / 2305843009213693952)) 1000 = Finite (1 / 2)"
  by (simp add: js_times_def double_defs)

lemma c0005_round: "Math_round (Finite (1 / 2)) = Finite (1)"
  by (simp add: Math_round_def floor_rat_divide_numeral)

lemma c0005_divide: "js_divide (Finite (1)) 10 = Finite (3602879701896397 / 36028797018963968)"
  by (simp add: js_divide_def double_defs)

lemma c0005_exp: "dec_exp (3602879701896397 / 36028797018963968) = 0"
  by (simp add: dec_exp_def dec_up.simps dec_down.simps)

lemma c0005_shortest: "shortest_from (3602879701896397 / 36028797018963968) 0 (Suc 0) = 1 / 10"
  by (simp add: shortest_from.simps double_defs)

lemma c0005_exp': "dec_exp (1 / 10) = 0"
  by (simp add: dec_exp_def dec_up.simps dec_down.simps)

lemma c0005_text: "number_to_string (Finite (3602879701896397 / 36028797018963968)) = [48, 46, 49]"
  by (simp add: number_to_string_def pos_to_string_def c0005_exp c0005_exp' c0005_shortest
      digits.simps strip_zeros.simps Let_def)

lemma c0005_percent: "percent_text (Some (json_number (5 / 10000))) = [48, 46, 49]"
  by (simp only: percent_text_def or_zero_def option.case c0005_parse c0005_times
      c0005_round c0005_divide c0005_text)

lemma cbig_parse: "json_number (10 ^ 20) = Finite (100000000000000000000)"
  by (simp add: json_number_def double_defs)

lemma cbig_times: "js_times (Finite (100000000000000000000)) 1000 = Finite (99999999999999991611392)"
  by (simp add: js_times_def double_defs)

lemma cbig_round: "Math_round (Finite (99999999999999991611392)) = Finite (99999999999999991611392)"
  by (simp add: Math_round_def floor_rat_divide_numeral)

lemma cbig_divide: "js_divide (Finite (99999999999999991611392)) 10 = Finite (10000000000000000000000)"
  by (simp add: js_divide_def double_defs)

lemma cbig_exp: "dec_exp (10000000000000000000000) = 23"
  by (simp add: dec_exp_def dec_up.simps dec_down.simps)

lemma cbig_shortest: "shortest_from (10000000000000000000000) 23 (Suc 0) = 10000000000000000000000"
  by (simp add: shortest_from.simps double_defs)

lemma cbig_text: "number_to_string (Finite (10000000000000000000000)) = [49, 101, 43, 50, 50]"
  by (simp add: number_to_string_def pos_to_string_def cbig_exp cbig_shortest
      digits.simps strip_zeros.simps Let_def)

lemma cbig_percent: "percent_text (Some (json_number (10 ^ 20))) = [49, 101, 43, 50, 50]"
  by (simp only: percent_text_def or_zero_def option.case cbig_parse cbig_times
      cbig_round cbig_divide cbig_text)

lemma inf_percent: "percent_text (Some PosInf) = [73, 110, 102, 105, 110, 105, 116, 121]"
  by (simp add: percent_text_def or_zero_def js_times_def Math_round_def js_divide_def
      number_to_string_def)

lemma c92_percent_normal: "percent_text (Some (json_number (23 / 25))) = [57, 50]"
  using c92_percent by simp

lemma c95_percent_normal: "percent_text (Some (json_number (19 / 20))) = [57, 53]"
  using c95_percent by simp

text \<open>The error of the rounding, for a product of at most a thousand.\<close>

lemma round_half_even_error: "\<bar>of_int (round_half_even y) - y\<bar> \<le> 1 / 2"
proof -
  have "of_int \<lfloor>y\<rfloor> \<le> y" "y < of_int \<lfloor>y\<rfloor> + 1"
    by linarith+
  then show ?thesis
    by (auto simp add: round_half_even_def Let_def abs_le_iff)
qed

lemma down2_result:
  "(2::rat) ^ 52 * 2 powi (down2 x q) \<le> x \<or> down2 x q \<le> - 1074"
proof (induction x q rule: down2.induct)
  case (1 x q)
  show ?case
  proof (cases "x < 2 ^ 52 * 2 powi q \<and> - 1074 < q")
    case True
    then show ?thesis using "1.IH" by (subst (1 2) down2.simps) simp
  next
    case False
    then show ?thesis by (subst (1 2) down2.simps) auto
  qed
qed

lemma spacing_bound:
  assumes "0 < x" and "x \<le> 1000"
  shows "(2::rat) powi (down2 x (up2 x 0)) \<le> 1000 / 2 ^ 52"
proof -
  let ?q = "down2 x (up2 x 0)"
  have "(2::rat) ^ 52 * 2 powi ?q \<le> x \<or> ?q \<le> - 1074"
    by (rule down2_result)
  then show ?thesis
  proof
    assume "(2::rat) ^ 52 * 2 powi ?q \<le> x"
    then have "2 ^ 52 * 2 powi ?q \<le> (1000::rat)" using assms(2) by linarith
    then show ?thesis by (simp add: pos_le_divide_eq mult.commute)
  next
    assume "?q \<le> - 1074"
    then have "(2::rat) powi ?q \<le> 2 powi (- 1074)"
      by (intro power_int_increasing) simp_all
    also have "\<dots> \<le> 1000 / 2 ^ 52" by (simp add: power_int_minus)
    finally show ?thesis .
  qed
qed

lemma to_double_in_range:
  assumes "0 \<le> x" and "x \<le> 1000"
  shows "\<exists>v. to_double x = Finite v \<and> \<bar>v - x\<bar> \<le> 1000 / 2 ^ 53"
proof (cases "x = 0")
  case True
  then show ?thesis by (simp add: to_double_def)
next
  case False
  then have pos: "0 < x" using assms(1) by simp
  let ?q = "down2 x (up2 x 0)"
  let ?u = "(2::rat) powi ?q"
  let ?v = "of_int (round_half_even (x / ?u)) * ?u"
  have u: "0 < ?u" by simp
  have sb: "?u \<le> 1000 / 2 ^ 52" by (rule spacing_bound [OF pos assms(2)])
  have "\<bar>of_int (round_half_even (x / ?u)) - x / ?u\<bar> \<le> 1 / 2"
    by (rule round_half_even_error)
  then have "\<bar>of_int (round_half_even (x / ?u)) - x / ?u\<bar> * ?u \<le> 1 / 2 * ?u"
    using u by (intro mult_right_mono) simp_all
  moreover have "\<bar>of_int (round_half_even (x / ?u)) - x / ?u\<bar> * ?u = \<bar>?v - x\<bar>"
    using u by (simp add: abs_mult_pos [symmetric] field_simps)
  ultimately have e: "\<bar>?v - x\<bar> \<le> ?u / 2" by simp
  then have err: "\<bar>?v - x\<bar> \<le> 1000 / 2 ^ 53" using sb by simp
  then have "?v - x \<le> 1" unfolding abs_le_iff by simp
  then have "?v \<le> 1001" using assms(2) by linarith
  then have fin: "\<not> 2 ^ 1024 \<le> ?v" by simp
  have "to_double x = Finite ?v"
    using pos fin by (simp add: to_double_def to_double_pos_def Let_def)
  then show ?thesis using err by blast
qed

lemma percent_in_range:
  assumes "0 \<le> c" and "c \<le> 1"
  shows "\<exists>n. Math_round (js_times (Finite c) 1000) = Finite (of_int n)
     \<and> \<bar>of_int n / 10 - c * 100\<bar> \<le> 1 / 20 + 1 / 10 ^ 13"
proof -
  have r: "0 \<le> c * 1000" "c * 1000 \<le> 1000" using assms by simp_all
  obtain v where v: "to_double (c * 1000) = Finite v" "\<bar>v - c * 1000\<bar> \<le> 1000 / 2 ^ 53"
    using to_double_in_range [OF r] by blast
  define n where "n = \<lfloor>v + 1 / 2\<rfloor>"
  have "of_int n \<le> v + 1 / 2" "v + 1 / 2 < of_int n + 1"
    unfolding n_def by linarith+
  moreover have "v - c * 1000 \<le> 1000 / 2 ^ 53" "- (v - c * 1000) \<le> 1000 / 2 ^ 53"
    using v(2) unfolding abs_le_iff by simp_all
  ultimately have "of_int n - c * 1000 \<le> 1 / 2 + 1000 / 2 ^ 53"
    "- (of_int n - c * 1000) \<le> 1 / 2 + 1000 / 2 ^ 53"
    by linarith+
  moreover have "(1000::rat) / 2 ^ 53 \<le> 10 / 10 ^ 13" by simp
  ultimately have "of_int n / 10 - c * 100 \<le> 1 / 20 + 1 / 10 ^ 13"
    "- (of_int n / 10 - c * 100) \<le> 1 / 20 + 1 / 10 ^ 13"
    by linarith+
  then have "\<bar>of_int n / 10 - c * 100\<bar> \<le> 1 / 20 + 1 / 10 ^ 13"
    unfolding abs_le_iff by simp
  moreover have "Math_round (js_times (Finite c) 1000) = Finite (of_int n)"
    by (simp add: Math_round_def js_times_def v(1) n_def)
  ultimately show ?thesis by blast
qed

lemma ticks_Suc_right: "ticks (Suc n) s = tick (ticks n s)"
  by (induction n arbitrary: s) simp_all

lemma ticks_typeMessage:
  "k \<le> length m \<Longrightarrow>
     typingMessage (ticks k (typeMessage m s)) = take k (tl m)
     \<and> typingIndex (ticks k (typeMessage m s)) = k
     \<and> typingInterval (ticks k (typeMessage m s)) = Some (m, 30)
     \<and> isTyping (ticks k (typeMessage m s))"
proof (induction k)
  case 0
  show ?case by (simp add: typeMessage_def clearTyping_def)
next
  case (Suc k)
  then have ih: "typingMessage (ticks k (typeMessage m s)) = take k (tl m)"
    "typingIndex (ticks k (typeMessage m s)) = k"
    "typingInterval (ticks k (typeMessage m s)) = Some (m, 30)"
    "isTyping (ticks k (typeMessage m s))" and lt: "k < length m"
    by simp_all
  have app: "take k (tl m) @ charAt m (Suc k) = take (Suc k) (tl m)"
  proof (cases "Suc k < length m")
    case True
    then have "k < length (tl m)" by simp
    then have "take (Suc k) (tl m) = take k (tl m) @ [tl m ! k]"
      by (rule take_Suc_conv_app_nth)
    moreover have "tl m ! k = m ! Suc k"
      using True by (simp add: nth_tl)
    ultimately show ?thesis using True by (simp add: charAt_def)
  next
    case False
    then have "length (tl m) = k" using lt by simp
    then show ?thesis using False by (simp add: charAt_def)
  qed
  show ?case
    unfolding ticks_Suc_right
    using ih lt app by (simp add: tick_def Let_def)
qed

lemmas handler_defs =
  onmessage_def onerror_def upd_session_def clearTyping_def handleSend_def
  fetch_then_def fetch_catch_def fetch_finally_def settle_def tick_def Let_def

lemma sessions_onmessage:
  "sessions (onmessage a d s) =
     (sessions s)[a := (case d of
         Chunk c \<Rightarrow> (sessions s ! a)\<lparr>hasReceivedData := True,
                       accumulatedText := accumulatedText (sessions s ! a) @ c\<rparr>
       | Complete r \<Rightarrow> (sessions s ! a)\<lparr>hasReceivedData := True, isCompleted := True, closed := True\<rparr>
       | Error m \<Rightarrow> (sessions s ! a)\<lparr>hasReceivedData := True, isCompleted := True, closed := True\<rparr>
       | Other \<Rightarrow> (sessions s ! a)\<lparr>hasReceivedData := True\<rparr>)]"
  by (cases "a < length (sessions s)"; cases d) (simp_all add: handler_defs list_update_beyond)

lemma messages_onmessage:
  "messages (onmessage a d s) =
     messages s @ (case d of Complete r \<Rightarrow> [bot_message (reply r)]
                   | Error m \<Rightarrow> [bot_message (error_text m)] | _ \<Rightarrow> [])"
  by (cases d) (simp_all add: handler_defs)

lemma fetches_onmessage: "fetches (onmessage a d s) = fetches s"
  by (cases d) (simp_all add: handler_defs)

lemma sessions_onerror:
  "sessions (onerror a s) = (sessions s)[a := (sessions s ! a)\<lparr>closed := True\<rparr>]"
  by (simp add: handler_defs)

lemma messages_onerror: "messages (onerror a s) = messages s"
  by (simp add: handler_defs)

lemma fetches_onerror:
  "fetches (onerror a s) =
     fetches s @ (if \<not> hasReceivedData (sessions s ! a) \<and> \<not> isCompleted (sessions s ! a)
                  then [\<lparr>fetch_session = a, fetch_question = question (sessions s ! a),
                         return_sources = True, fetch_location = sess_location (sessions s ! a),
                         settled = False\<rparr>]
                  else [])"
  by (cases "a < length (sessions s)") (simp_all add: handler_defs list_update_beyond)

lemma isThinking_onerror:
  "isThinking (onerror a s) =
     (if \<not> isCompleted (sessions s ! a) \<and> hasReceivedData (sessions s ! a) then False
      else isThinking s)"
  by (cases "a < length (sessions s)") (auto simp add: handler_defs list_update_beyond)

lemma sessions_handleSend:
  "sessions (handleSend t s) =
     (if blank t then sessions s else sessions s @ [new_session t (userLocation s)])"
  by (simp add: handleSend_def)

lemma fetches_handleSend: "fetches (handleSend t s) = fetches s"
  by (simp add: handleSend_def)

lemma messages_handleSend:
  "messages (handleSend t s) = (if blank t then messages s else messages s @ [user_message t])"
  by (simp add: handleSend_def)

lemma filter_settle_same:
  "filter (\<lambda>f. fetch_session f = a)
     (map (\<lambda>f. if fetch_session f = a then f\<lparr>settled := True\<rparr> else f) fs)
   = map (\<lambda>f. f\<lparr>settled := True\<rparr>) (filter (\<lambda>f. fetch_session f = a) fs)"
  by (induction fs) simp_all

lemma filter_settle_other:
  "a \<noteq> b \<Longrightarrow>
   filter (\<lambda>f. fetch_session f = b)
     (map (\<lambda>f. if fetch_session f = a then f\<lparr>settled := True\<rparr> else f) fs)
   = filter (\<lambda>f. fetch_session f = b) fs"
  by (induction fs) simp_all

lemma fetches_of_settle_same:
  "fetches_of a (settle a s) = map (\<lambda>f. f\<lparr>settled := True\<rparr>) (fetches_of a s)"
  by (simp add: fetches_of_def settle_def filter_settle_same)

lemma fetches_of_settle_other:
  "a \<noteq> b \<Longrightarrow> fetches_of b (settle a s) = fetches_of b s"
  by (simp add: fetches_of_def settle_def filter_settle_other)

lemma sessions_settle: "sessions (settle a s) = sessions s"
  by (simp add: settle_def)

lemma messages_settle: "messages (settle a s) = messages s"
  by (simp add: settle_def)

lemma step_other_session:
  "target e \<noteq> Some b \<Longrightarrow> b < length (sessions s) \<Longrightarrow> sessions (step e s) ! b = sessions s ! b"
  by (cases e)
    (simp_all add: sessions_handleSend sessions_onmessage sessions_onerror sessions_settle
      fetch_finally_def fetch_then_def fetch_catch_def tick_def clearTyping_def nth_append
      split: option.splits)

lemma step_other_fetches:
  "target e \<noteq> Some b \<Longrightarrow> fetches_of b (step e s) = fetches_of b s"
  by (cases e)
    (auto simp add: fetches_handleSend fetches_onmessage fetches_onerror settle_def
      filter_settle_other fetch_finally_def fetch_then_def fetch_catch_def tick_def
      clearTyping_def fetches_of_def split: option.splits)

lemma step_messages_prefix: "prefix (messages s) (messages (step e s))"
  by (cases e)
    (simp_all add: messages_handleSend messages_onmessage messages_onerror messages_settle
      fetch_finally_def fetch_then_def fetch_catch_def tick_def clearTyping_def
      split: option.splits)

lemma step_length_sessions: "length (sessions s) \<le> length (sessions (step e s))"
  by (cases e)
    (simp_all add: sessions_handleSend sessions_onmessage sessions_onerror sessions_settle
      fetch_finally_def fetch_then_def fetch_catch_def tick_def clearTyping_def
      split: option.splits)

lemma bot_count_append_bot [simp]: "bot_count (ms @ [bot_message t]) = Suc (bot_count ms)"
  by (simp add: bot_count_def bot_message_def)

lemma bot_count_append_user [simp]: "bot_count (ms @ [user_message t]) = bot_count ms"
  by (simp add: bot_count_def user_message_def)

lemma fetches_of_cong: "fetches s' = fetches s \<Longrightarrow> fetches_of b s' = fetches_of b s"
  by (simp add: fetches_of_def)

lemma open_facts:
  assumes "consistent sid s" "stream_open sid s"
  shows "sid < length (sessions s)" "\<not> closed (sessions s ! sid)"
    "\<not> isCompleted (sessions s ! sid)" "fetches_of sid s = []" "\<not> finished sid s"
  using assms by (auto simp add: consistent_def stream_open_def finished_def)

lemma own_message:
  assumes "consistent sid s" "stream_open sid s"
  shows "consistent sid (onmessage sid d s)
     \<and> (bot_count (messages (onmessage sid d s)) - bot_count (messages s))
          + (if finished sid s then 1 else 0)
        = (if finished sid (onmessage sid d s) then 1 else 0)"
proof -
  note f = open_facts [OF assms]
  have fo: "fetches_of sid (onmessage sid d s) = []"
    using f(4) fetches_of_cong [OF fetches_onmessage, of sid sid d s] by simp
  have np: "\<not> pending sid (onmessage sid d s)"
    using fo by (simp add: pending_def)
  show ?thesis
    using f fo np
    by (cases d)
      (simp_all add: consistent_def finished_def sessions_onmessage messages_onmessage)
qed

lemma own_error:
  assumes "consistent sid s" "stream_open sid s"
  shows "consistent sid (onerror sid s)
     \<and> (bot_count (messages (onerror sid s)) - bot_count (messages s))
          + (if finished sid s then 1 else 0)
        = (if finished sid (onerror sid s) then 1 else 0)"
proof -
  note f = open_facts [OF assms]
  have fo: "fetches_of sid (onerror sid s) =
      (if \<not> hasReceivedData (sessions s ! sid)
       then [\<lparr>fetch_session = sid, fetch_question = question (sessions s ! sid),
              return_sources = True, fetch_location = sess_location (sessions s ! sid),
              settled = False\<rparr>]
       else [])"
    using f(3,4) by (simp add: fetches_of_def fetches_onerror)
  show ?thesis
    using f fo
    by (simp add: consistent_def finished_def sessions_onerror messages_onerror pending_def)
qed

lemma own_settle:
  assumes "consistent sid s" "pending sid s"
  shows "consistent sid (fetch_finally (fetch_then d (settle sid s)))
     \<and> consistent sid (fetch_finally (fetch_catch (settle sid s)))
     \<and> finished sid (fetch_finally (fetch_then d (settle sid s)))
     \<and> finished sid (fetch_finally (fetch_catch (settle sid s)))
     \<and> \<not> finished sid s
     \<and> bot_count (messages (fetch_finally (fetch_then d (settle sid s))))
         = Suc (bot_count (messages s))
     \<and> bot_count (messages (fetch_finally (fetch_catch (settle sid s))))
         = Suc (bot_count (messages s))"
proof -
  have ne: "fetches_of sid s \<noteq> []"
    using assms(2) by (auto simp add: pending_def)
  then have c: "sid < length (sessions s)" "closed (sessions s ! sid)"
    "\<not> isCompleted (sessions s ! sid)" "length (fetches_of sid s) = 1"
    using assms(1) by (simp_all add: consistent_def)
  have a: "fetches_of sid (fetch_finally (fetch_then d (settle sid s)))
      = map (\<lambda>f. f\<lparr>settled := True\<rparr>) (fetches_of sid s)"
    using fetches_of_settle_same [of sid s]
    by (simp add: fetches_of_def fetch_finally_def fetch_then_def)
  have b: "fetches_of sid (fetch_finally (fetch_catch (settle sid s)))
      = map (\<lambda>f. f\<lparr>settled := True\<rparr>) (fetches_of sid s)"
    using fetches_of_settle_same [of sid s]
    by (simp add: fetches_of_def fetch_finally_def fetch_catch_def)
  have s1: "sessions (fetch_finally (fetch_then d (settle sid s))) = sessions s"
    "sessions (fetch_finally (fetch_catch (settle sid s))) = sessions s"
    by (simp_all add: fetch_finally_def fetch_then_def fetch_catch_def settle_def)
  have m1: "messages (fetch_finally (fetch_then d (settle sid s)))
      = messages s @ [bot_message (reply d)]"
    "messages (fetch_finally (fetch_catch (settle sid s)))
      = messages s @ [bot_message unavailable_text]"
    by (simp_all add: fetch_finally_def fetch_then_def fetch_catch_def settle_def)
  show ?thesis
    using ne c assms(2)
    by (simp add: consistent_def finished_def a b s1 m1 pending_def list_ex_iff)
qed

lemma step_own:
  assumes "consistent sid s" "target e = Some sid"
  shows "consistent sid (step e s)
     \<and> (bot_count (messages (step e s)) - bot_count (messages s))
          + (if finished sid s then 1 else 0)
        = (if finished sid (step e s) then 1 else 0)"
proof (cases e)
  case (StreamMessage a d)
  with assms(2) have e: "e = StreamMessage sid d" by simp
  show ?thesis
  proof (cases "stream_open sid s")
    case True
    from own_message [OF assms(1) True, of d] show ?thesis using e True by simp
  next
    case False
    then show ?thesis using e assms(1) by simp
  qed
next
  case (StreamError a)
  with assms(2) have e: "e = StreamError sid" by simp
  show ?thesis
  proof (cases "stream_open sid s")
    case True
    from own_error [OF assms(1) True] show ?thesis using e True by simp
  next
    case False
    then show ?thesis using e assms(1) by simp
  qed
next
  case (FetchResolved a d)
  with assms(2) have e: "e = FetchResolved sid d" by simp
  show ?thesis
  proof (cases "pending sid s")
    case True
    from own_settle [OF assms(1) True, of d] show ?thesis using e True by simp
  next
    case False
    then show ?thesis using e assms(1) by simp
  qed
next
  case (FetchRejected a)
  with assms(2) have e: "e = FetchRejected sid" by simp
  show ?thesis
  proof (cases "pending sid s")
    case True
    from own_settle [OF assms(1) True] show ?thesis using e True by simp
  next
    case False
    then show ?thesis using e assms(1) by simp
  qed
qed (use assms in simp_all)

lemma step_foreign:
  assumes "consistent sid s" "target e \<noteq> Some sid"
  shows "consistent sid (step e s) \<and> finished sid (step e s) = finished sid s"
proof -
  have lt: "sid < length (sessions s)"
    using assms(1) by (simp add: consistent_def)
  have a: "sessions (step e s) ! sid = sessions s ! sid"
    using step_other_session [OF assms(2) lt] .
  have b: "fetches_of sid (step e s) = fetches_of sid s"
    using step_other_fetches [OF assms(2)] .
  have c: "sid < length (sessions (step e s))"
    using lt step_length_sessions [of s e] by simp
  show ?thesis
    using assms(1) a b c by (simp add: consistent_def finished_def pending_def)
qed

lemma replies_run:
  "consistent sid s \<Longrightarrow>
     consistent sid (run evs s)
     \<and> replies sid evs s + (if finished sid s then 1 else 0)
        = (if finished sid (run evs s) then 1 else 0)"
proof (induction evs arbitrary: s)
  case Nil
  then show ?case by simp
next
  case (Cons e evs)
  show ?case
  proof (cases "target e = Some sid")
    case True
    from step_own [OF Cons.prems True] Cons.IH [of "step e s"] True
    show ?thesis by (simp split: if_splits)
  next
    case False
    from step_foreign [OF Cons.prems False] Cons.IH [of "step e s"] False
    show ?thesis by simp
  qed
qed

lemma requests_of_settle: "requests_of b (settle a s) = requests_of b s"
proof (cases "a = b")
  case True
  then show ?thesis
    by (simp add: requests_of_def fetches_of_settle_same comp_def)
next
  case False
  then show ?thesis
    by (simp add: requests_of_def fetches_of_settle_other)
qed

lemma step_closed:
  assumes "sid < length (sessions s)" "closed (sessions s ! sid)"
  shows "sid < length (sessions (step e s)) \<and> sessions (step e s) ! sid = sessions s ! sid
     \<and> requests_of sid (step e s) = requests_of sid s"
proof (cases "target e = Some sid")
  case False
  then show ?thesis
    using step_other_session [OF False assms(1)] step_other_fetches [OF False]
      step_length_sessions [of s e] assms(1)
    by (simp add: requests_of_def)
next
  case True
  have no: "\<not> stream_open sid s"
    using assms by (simp add: stream_open_def)
  have st: "requests_of sid (fetch_finally (fetch_then d (settle sid s))) = requests_of sid s"
    "requests_of sid (fetch_finally (fetch_catch (settle sid s))) = requests_of sid s" for d
    using requests_of_settle [of sid sid s]
    by (simp_all add: requests_of_def fetches_of_def fetch_finally_def fetch_then_def
        fetch_catch_def)
  have ss: "sessions (fetch_finally (fetch_then d (settle sid s))) = sessions s"
    "sessions (fetch_finally (fetch_catch (settle sid s))) = sessions s" for d
    by (simp_all add: fetch_finally_def fetch_then_def fetch_catch_def settle_def)
  show ?thesis
    using True no assms(1) by (cases e) (simp_all add: st ss)
qed

lemma run_closed:
  "sid < length (sessions s) \<Longrightarrow> closed (sessions s ! sid) \<Longrightarrow>
     sid < length (sessions (run evs s)) \<and> sessions (run evs s) ! sid = sessions s ! sid
     \<and> requests_of sid (run evs s) = requests_of sid s"
proof (induction evs arbitrary: s)
  case Nil
  then show ?case by simp
next
  case (Cons e evs)
  from step_closed [OF Cons.prems, of e] Cons.IH [of "step e s"] Cons.prems
  show ?case by simp
qed

lemma run_foreign:
  "\<forall>e\<in>set evs. target e \<noteq> Some b \<Longrightarrow> b < length (sessions s) \<Longrightarrow>
     b < length (sessions (run evs s)) \<and> sessions (run evs s) ! b = sessions s ! b
     \<and> fetches_of b (run evs s) = fetches_of b s"
proof (induction evs arbitrary: s)
  case Nil
  then show ?case by simp
next
  case (Cons e evs)
  have t: "target e \<noteq> Some b" using Cons.prems(1) by simp
  have lt: "b < length (sessions (step e s))"
    using Cons.prems(2) step_length_sessions [of s e] by simp
  from Cons.IH [of "step e s"] Cons.prems(1) lt
    step_other_session [OF t Cons.prems(2)] step_other_fetches [OF t, of s]
  show ?case by simp
qed

lemma run_messages_prefix: "prefix (messages s) (messages (run evs s))"
proof (induction evs arbitrary: s)
  case Nil
  show ?case by simp
next
  case (Cons e evs)
  from step_messages_prefix [of s e] Cons.IH [of "step e s"]
  show ?case by (auto intro: prefix_order.trans)
qed

lemma step_fetch_sessions:
  assumes "\<forall>f\<in>set (fetches s). fetch_session f < length (sessions s)"
  shows "\<forall>f\<in>set (fetches (step e s)). fetch_session f < length (sessions (step e s))"
proof -
  have l: "length (sessions s) \<le> length (sessions (step e s))"
    by (rule step_length_sessions)
  have "\<forall>f\<in>set (fetches (step e s)). fetch_session f < length (sessions s)"
    using assms
    by (cases e)
      (auto simp add: fetches_handleSend fetches_onmessage fetches_onerror settle_def
        fetch_finally_def fetch_then_def fetch_catch_def tick_def clearTyping_def
        stream_open_def split: option.splits)
  then show ?thesis using l by auto
qed

lemma run_fetch_sessions:
  "\<forall>f\<in>set (fetches s). fetch_session f < length (sessions s) \<Longrightarrow>
     \<forall>f\<in>set (fetches (run evs s)). fetch_session f < length (sessions (run evs s))"
proof (induction evs arbitrary: s)
  case Nil
  then show ?case by simp
next
  case (Cons e evs)
  from Cons.IH [OF step_fetch_sessions [OF Cons.prems, of e]] show ?case by simp
qed

lemma reachable_no_fetch_ahead:
  "fetches_of (length (sessions (run evs (initial w)))) (run evs (initial w)) = []"
proof -
  have "\<forall>f\<in>set (fetches (run evs (initial w))).
      fetch_session f < length (sessions (run evs (initial w)))"
    by (rule run_fetch_sessions) (simp add: initial_def)
  then show ?thesis
    by (auto simp add: fetches_of_def filter_empty_conv)
qed

lemma submitted_query:
  assumes "\<not> blank t" and "fetches_of (length (sessions s0)) s0 = []"
  shows "stream_open (length (sessions s0)) (handleSend t s0)"
    "\<not> hasReceivedData (sessions (handleSend t s0) ! length (sessions s0))"
    "\<not> isCompleted (sessions (handleSend t s0) ! length (sessions s0))"
    "fetches_of (length (sessions s0)) (handleSend t s0) = []"
    "question (sessions (handleSend t s0) ! length (sessions s0)) = t"
    "sess_location (sessions (handleSend t s0) ! length (sessions s0)) = userLocation s0"
    "accumulatedText (sessions (handleSend t s0) ! length (sessions s0)) = []"
  using assms
  by (simp_all add: stream_open_def sessions_handleSend new_session_def fetches_of_def
      fetches_handleSend)

lemmas eval_defs =
  handler_defs stream_open_def pending_def fetches_of_def requests_of_def initial_def
  blank_def is_ws_def new_session_def build_streamUrl_def bot_message_def user_message_def
  bot_count_def one_pending_def two_pending_def error_text_def

subsection \<open>The typewriter\<close>


subsection \<open>Overlapping queries\<close>

text \<open>
  Claim C1, as amended. The source has no generation counter: the callbacks of an earlier
  query keep running after a later query was submitted. What the events of other closures
  (and every event that is not a callback of closure \<open>b\<close>) leave unchanged is the closure
  state of \<open>b\<close> and the fallback requests of \<open>b\<close>; and the transcript only grows at its end.
\<close>

theorem stale_events_isolated:
  assumes "\<forall>e\<in>set evs. target e \<noteq> Some b" and "b < length (sessions s)"
  shows "sessions (run evs s) ! b = sessions s ! b
     \<and> fetches_of b (run evs s) = fetches_of b s
     \<and> prefix (messages s) (messages (run evs s))"
  using run_foreign [OF assms] run_messages_prefix [of s evs] by simp

theorem stale_events_isolated_witness:
  "target (StreamMessage 0 (Chunk [120])) \<noteq> Some 1
   \<and> target (StreamMessage 0 (Complete example_result)) \<noteq> Some 1
   \<and> 1 < length (sessions two_pending)
   \<and> sessions (run [StreamMessage 0 (Chunk [120]), StreamMessage 0 (Complete example_result)]
        two_pending) ! 1 = sessions two_pending ! 1
   \<and> prefix (messages two_pending)
       (messages (run [StreamMessage 0 (Chunk [120]), StreamMessage 0 (Complete example_result)]
          two_pending))"
proof -
  have a: "\<forall>e\<in>set [StreamMessage 0 (Chunk [120]), StreamMessage 0 (Complete example_result)].
      target e \<noteq> Some 1"
    by simp
  have b: "1 < length (sessions two_pending)"
    by (simp add: eval_defs)
  show ?thesis
    using stale_events_isolated [OF a b] b by (simp del: run.simps step.simps)
qed

text \<open>
  Claim C1, as stated, fails: with two queries submitted and both streams open, a
  \<open>complete\<close> event of the first query appends to the transcript and a \<open>chunk\<close> event of
  the first query overwrites the typewriter buffer.
\<close>

theorem stale_events_mutate_counterexample:
  "messages (step (StreamMessage 0 (Complete example_result)) two_pending)
     \<noteq> messages two_pending
   \<and> typingMessage (step (StreamMessage 0 (Chunk [120])) two_pending)
     \<noteq> typingMessage two_pending
   \<and> length (sessions two_pending) = 2
   \<and> stream_open 0 two_pending \<and> stream_open 1 two_pending"
  by (simp add: eval_defs)

subsection \<open>Assistant messages per query\<close>

lemma replies_characterised:
  assumes "stream_open sid s" and "\<not> isCompleted (sessions s ! sid)"
    and "fetches_of sid s = []"
  shows "replies sid evs s = (if finished sid (run evs s) then 1 else 0)
     \<and> (hasReceivedData (sessions s ! sid) \<longrightarrow>
          messages (step (StreamError sid) s) = messages s
          \<and> replies sid (StreamError sid # evs) s = 0)"
proof -
  have c: "consistent sid s"
    using assms by (simp add: consistent_def stream_open_def)
  have nf: "\<not> finished sid s"
    using assms by (simp add: finished_def)
  have one: "replies sid evs s = (if finished sid (run evs s) then 1 else 0)" for evs
    using replies_run [OF c, of evs] nf by simp
  have two: "messages (step (StreamError sid) s) = messages s
      \<and> replies sid (StreamError sid # evs) s = 0"
    if h: "hasReceivedData (sessions s ! sid)"
  proof -
    let ?s = "onerror sid s"
    have lt: "sid < length (sessions s)"
      using assms(1) by (simp add: stream_open_def)
    have st: "step (StreamError sid) s = ?s"
      using assms(1) by simp
    have cl: "sid < length (sessions ?s)" "closed (sessions ?s ! sid)"
      "\<not> isCompleted (sessions ?s ! sid)"
      using lt assms(2) by (simp_all add: sessions_onerror)
    have fe: "fetches_of sid ?s = []"
      using assms(3) h by (simp add: fetches_of_def fetches_onerror)
    have rq: "requests_of sid (run evs ?s) = []"
      using run_closed [OF cl(1,2), of evs] fe by (simp add: requests_of_def)
    have "\<not> finished sid (run evs ?s)"
      using run_closed [OF cl(1,2), of evs] cl(3) rq
      by (simp add: finished_def requests_of_def)
    then have "replies sid (StreamError sid # evs) s = 0"
      using one [of "StreamError sid # evs"] st by simp
    then show ?thesis
      using st by (simp add: messages_onerror)
  qed
  show ?thesis using one two by simp
qed

text \<open>
  Claim C2, as amended. For a query whose stream is open, not completed and without a
  fallback request (as is every query just submitted with a text that is not blank, in
  every state the component can reach), the callbacks of that query append, along any
  trace of events,
  exactly one assistant message when the trace ends with the stream completed (a
  \<open>complete\<close> or an \<open>error\<close> message was handled) or with the fallback request settled,
  and none otherwise; so never two. On the path where the transport fails after a
  message was received, \<open>onerror\<close> appends nothing, and nothing is appended afterwards.
\<close>

theorem one_reply_when_finished:
  assumes "stream_open sid s" and "\<not> isCompleted (sessions s ! sid)"
    and "fetches_of sid s = []"
  shows "replies sid evs s = (if finished sid (run evs s) then 1 else 0)
     \<and> (hasReceivedData (sessions s ! sid) \<longrightarrow>
          messages (step (StreamError sid) s) = messages s
          \<and> replies sid (StreamError sid # evs) s = 0)
     \<and> (\<not> blank t \<longrightarrow>
          replies (length (sessions (run evs0 (initial w)))) evs
            (handleSend t (run evs0 (initial w)))
          = (if finished (length (sessions (run evs0 (initial w))))
                 (run evs (handleSend t (run evs0 (initial w))))
             then 1 else 0))"
proof -
  have fresh: "replies (length (sessions (run evs0 (initial w)))) evs
            (handleSend t (run evs0 (initial w)))
          = (if finished (length (sessions (run evs0 (initial w))))
                 (run evs (handleSend t (run evs0 (initial w))))
             then 1 else 0)"
    if h: "\<not> blank t"
  proof -
    note q = submitted_query [OF h reachable_no_fetch_ahead [of evs0 w]]
    show ?thesis
      using replies_characterised [OF q(1) q(3) q(4), of evs] by blast
  qed
  show ?thesis
    using replies_characterised [OF assms, of evs] fresh by blast
qed

theorem one_reply_when_finished_witness:
  "stream_open 0 one_pending \<and> \<not> isCompleted (sessions one_pending ! 0)
   \<and> fetches_of 0 one_pending = []
   \<and> replies 0 [StreamMessage 0 (Chunk [120]), StreamMessage 0 (Complete example_result),
        StreamError 0] one_pending = 1
   \<and> replies 0 [StreamError 0, FetchRejected 0, FetchRejected 0] one_pending = 1
   \<and> stream_open 0 (step (StreamMessage 0 (Chunk [120])) one_pending)
   \<and> \<not> isCompleted (sessions (step (StreamMessage 0 (Chunk [120])) one_pending) ! 0)
   \<and> fetches_of 0 (step (StreamMessage 0 (Chunk [120])) one_pending) = []
   \<and> hasReceivedData (sessions (step (StreamMessage 0 (Chunk [120])) one_pending) ! 0)
   \<and> replies 0 [StreamError 0, StreamError 0, FetchRejected 0]
         (step (StreamMessage 0 (Chunk [120])) one_pending) = 0
   \<and> \<not> blank [98]
   \<and> replies 1 [StreamMessage 1 (Error [120]), StreamError 1]
         (handleSend [98] (run [Send (Some [97])] (initial []))) = 1"
proof -
  have a: "stream_open 0 one_pending" "\<not> isCompleted (sessions one_pending ! 0)"
    "fetches_of 0 one_pending = []"
    by (simp_all add: eval_defs)
  have b: "finished 0 (run [StreamMessage 0 (Chunk [120]),
      StreamMessage 0 (Complete example_result), StreamError 0] one_pending)"
    by (simp add: finished_def eval_defs)
  have c: "finished 0 (run [StreamError 0, FetchRejected 0, FetchRejected 0] one_pending)"
    by (simp add: finished_def eval_defs)
  have a': "stream_open 0 (step (StreamMessage 0 (Chunk [120])) one_pending)"
    "\<not> isCompleted (sessions (step (StreamMessage 0 (Chunk [120])) one_pending) ! 0)"
    "fetches_of 0 (step (StreamMessage 0 (Chunk [120])) one_pending) = []"
    by (simp_all add: eval_defs)
  have h: "hasReceivedData (sessions (step (StreamMessage 0 (Chunk [120])) one_pending) ! 0)"
    by (simp add: eval_defs)
  have one: "replies 0 [StreamMessage 0 (Chunk [120]), StreamMessage 0 (Complete example_result),
        StreamError 0] one_pending = 1"
    using one_reply_when_finished [OF a, of "[StreamMessage 0 (Chunk [120]),
      StreamMessage 0 (Complete example_result), StreamError 0]"] b
    by (simp del: replies.simps run.simps step.simps)
  have two: "replies 0 [StreamError 0, FetchRejected 0, FetchRejected 0] one_pending = 1"
    using one_reply_when_finished [OF a, of "[StreamError 0, FetchRejected 0, FetchRejected 0]"] c
    by (simp del: replies.simps run.simps step.simps)
  have three: "replies 0 [StreamError 0, StreamError 0, FetchRejected 0]
         (step (StreamMessage 0 (Chunk [120])) one_pending) = 0"
    using one_reply_when_finished [OF a', of "[StreamError 0, FetchRejected 0]"] h
    by (simp del: replies.simps run.simps step.simps)
  have nb: "\<not> blank [98]" "length (sessions (run [Send (Some [97])] (initial []))) = 1"
    by (simp_all add: eval_defs)
  have d: "finished 1 (run [StreamMessage 1 (Error [120]), StreamError 1]
         (handleSend [98] (run [Send (Some [97])] (initial []))))"
    by (simp add: finished_def eval_defs)
  have four: "replies 1 [StreamMessage 1 (Error [120]), StreamError 1]
         (handleSend [98] (run [Send (Some [97])] (initial []))) = 1"
    using one_reply_when_finished [OF a,
        where evs = "[StreamMessage 1 (Error [120]), StreamError 1]" and t = "[98]"
          and ?evs0.0 = "[Send (Some [97])]" and w = "[]"] nb d
    by (simp del: replies.simps run.simps step.simps)
  show ?thesis
    using a a' h one two three four nb(1) by blast
qed

text \<open>
  Claim C2, as stated, fails: after one chunk and a transport failure the stream is
  closed, the thinking indicator is off, no fallback was requested, and the transcript
  holds no assistant message for the query.
\<close>

theorem no_reply_after_partial_stream_counterexample:
  "replies 0 [StreamMessage 0 (Chunk [120]), StreamError 0] one_pending = 0
   \<and> messages (run [StreamMessage 0 (Chunk [120]), StreamError 0] one_pending)
       = [bot_message [], user_message [97]]
   \<and> closed (sessions (run [StreamMessage 0 (Chunk [120]), StreamError 0] one_pending) ! 0)
   \<and> \<not> isThinking (run [StreamMessage 0 (Chunk [120]), StreamError 0] one_pending)
   \<and> fetches (run [StreamMessage 0 (Chunk [120]), StreamError 0] one_pending) = []"
  by (simp add: eval_defs)

subsection \<open>The fallback request\<close>

lemma error_event_closes:
  assumes "sid < length (sessions s)"
  shows "sid < length (sessions (onmessage sid (Error m) s))"
    "closed (sessions (onmessage sid (Error m) s) ! sid)"
    "requests_of sid (onmessage sid (Error m) s) = requests_of sid s"
    "messages (onmessage sid (Error m) s) = messages s @ [bot_message (error_text m)]"
  using assms
  by (simp_all add: sessions_onmessage messages_onmessage requests_of_def fetches_of_def
      fetches_onmessage)

lemma fallback_request_unique:
  assumes "stream_open sid s" and "\<not> hasReceivedData (sessions s ! sid)"
    and "\<not> isCompleted (sessions s ! sid)" and "fetches_of sid s = []"
  shows "requests_of sid (step (StreamError sid) s)
       = [(question (sessions s ! sid), True, sess_location (sessions s ! sid))]
     \<and> requests_of sid (run evs (step (StreamError sid) s))
       = [(question (sessions s ! sid), True, sess_location (sessions s ! sid))]
     \<and> requests_of sid (run evs (step (StreamMessage sid (Error m)) s)) = []"
proof -
  have lt: "sid < length (sessions s)"
    using assms(1) by (simp add: stream_open_def)
  let ?s = "onerror sid s"
  have st: "step (StreamError sid) s = ?s" "step (StreamMessage sid (Error m)) s
      = onmessage sid (Error m) s"
    using assms(1) by simp_all
  have cl: "sid < length (sessions ?s)" "closed (sessions ?s ! sid)"
    using lt by (simp_all add: sessions_onerror)
  have rq: "requests_of sid ?s
      = [(question (sessions s ! sid), True, sess_location (sessions s ! sid))]"
    using assms(2,3,4) by (simp add: requests_of_def fetches_of_def fetches_onerror)
  have r0: "requests_of sid s = []"
    using assms(4) by (simp add: requests_of_def)
  show ?thesis
    using assms(1) run_closed [OF cl, of evs] rq r0
      run_closed [OF error_event_closes(1,2) [OF lt, of m], of evs]
      error_event_closes(3) [OF lt, of m]
    by (simp add: st)
qed

text \<open>
  Claim C3, as amended. If the transport error callback runs on an open stream before
  any message of the query was received, one fallback request is issued, carrying the
  question and the location of the closure and \<open>return_sources = true\<close>, and whatever
  events follow, this stays the only fallback request of the query. An \<open>error\<close> message
  from the server in the same situation issues no fallback request, then or later. For a
  query just submitted, in any state the component can reach, the request carries the
  submitted text and the location of the user at that moment.
\<close>

theorem fallback_once_on_transport_error:
  assumes "stream_open sid s" and "\<not> hasReceivedData (sessions s ! sid)"
    and "\<not> isCompleted (sessions s ! sid)" and "fetches_of sid s = []"
  shows "requests_of sid (step (StreamError sid) s)
       = [(question (sessions s ! sid), True, sess_location (sessions s ! sid))]
     \<and> requests_of sid (run evs (step (StreamError sid) s))
       = [(question (sessions s ! sid), True, sess_location (sessions s ! sid))]
     \<and> requests_of sid (run evs (step (StreamMessage sid (Error m)) s)) = []
     \<and> (\<not> blank t \<longrightarrow>
          requests_of (length (sessions (run evs0 (initial w))))
            (run evs (step (StreamError (length (sessions (run evs0 (initial w)))))
               (handleSend t (run evs0 (initial w)))))
          = [(t, True, userLocation (run evs0 (initial w)))])"
proof -
  have fresh: "requests_of (length (sessions (run evs0 (initial w))))
            (run evs (step (StreamError (length (sessions (run evs0 (initial w)))))
               (handleSend t (run evs0 (initial w)))))
          = [(t, True, userLocation (run evs0 (initial w)))]"
    if h: "\<not> blank t"
  proof -
    note q = submitted_query [OF h reachable_no_fetch_ahead [of evs0 w]]
    show ?thesis
      using fallback_request_unique [OF q(1) q(2) q(3) q(4), of evs] q(5,6)
      by (simp del: step.simps)
  qed
  show ?thesis
    using fallback_request_unique [OF assms, of evs m] fresh by blast
qed

theorem fallback_once_on_transport_error_witness:
  "stream_open 0 one_pending \<and> \<not> hasReceivedData (sessions one_pending ! 0)
   \<and> \<not> isCompleted (sessions one_pending ! 0) \<and> fetches_of 0 one_pending = []
   \<and> requests_of 0 (run [StreamError 0, StreamError 0, FetchRejected 0, StreamError 0]
        (step (StreamError 0) one_pending)) = [([97], True, None)]
   \<and> \<not> blank [98]
   \<and> requests_of 1 (run [StreamError 0, StreamError 0, FetchRejected 0, StreamError 0]
        (step (StreamError 1) (handleSend [98] (run [Send (Some [97])] (initial [])))))
       = [([98], True, None)]"
proof -
  have a: "stream_open 0 one_pending" "\<not> hasReceivedData (sessions one_pending ! 0)"
    "\<not> isCompleted (sessions one_pending ! 0)" "fetches_of 0 one_pending = []"
    by (simp_all add: eval_defs)
  have q: "question (sessions one_pending ! 0) = [97]"
    "sess_location (sessions one_pending ! 0) = None"
    by (simp_all add: eval_defs)
  have f: "\<not> blank [98]" "length (sessions (run [Send (Some [97])] (initial []))) = 1"
    "userLocation (run [Send (Some [97])] (initial [])) = None"
    by (simp_all add: eval_defs)
  show ?thesis
    using fallback_once_on_transport_error [OF a,
        where evs = "[StreamError 0, StreamError 0, FetchRejected 0, StreamError 0]"
          and t = "[98]" and ?evs0.0 = "[Send (Some [97])]" and w = "[]"] a q f
    by (simp del: step.simps run.simps)
qed

text \<open>
  Claim C3, as stated, fails: an \<open>error\<close> message arriving before any chunk appends the
  text of the error to the transcript and requests no fallback.
\<close>

theorem error_event_without_fallback_counterexample:
  "hasReceivedData (sessions one_pending ! 0) = False
   \<and> accumulatedText (sessions one_pending ! 0) = []
   \<and> fetches (step (StreamMessage 0 (Error [120])) one_pending) = []
   \<and> requests_of 0 (step (StreamMessage 0 (Error [120])) one_pending) = []
   \<and> messages (step (StreamMessage 0 (Error [120])) one_pending)
       = [bot_message [], user_message [97], bot_message [38169, 35823, 58, 32, 120]]"
  by (simp add: eval_defs)

text \<open>
  Claim C4, as amended. If the transport error callback runs on an open, uncompleted
  stream after a message of the query was received, it appends no message and issues
  no request, switches the thinking indicator off and closes the stream, and no later
  event issues a fallback request for the query. An \<open>error\<close> message from the server
  appends the assistant message made of the error label and the server's text, closes
  the stream, and likewise never leads to a fallback request.
\<close>

theorem partial_stream_failure_no_fallback:
  assumes "stream_open sid s" and "hasReceivedData (sessions s ! sid)"
    and "\<not> isCompleted (sessions s ! sid)"
  shows "messages (step (StreamError sid) s) = messages s
     \<and> fetches (step (StreamError sid) s) = fetches s
     \<and> \<not> isThinking (step (StreamError sid) s)
     \<and> closed (sessions (step (StreamError sid) s) ! sid)
     \<and> requests_of sid (run evs (step (StreamError sid) s)) = requests_of sid s
     \<and> messages (step (StreamMessage sid (Error m)) s)
         = messages s @ [bot_message (error_text m)]
     \<and> closed (sessions (step (StreamMessage sid (Error m)) s) ! sid)
     \<and> requests_of sid (run evs (step (StreamMessage sid (Error m)) s)) = requests_of sid s"
proof -
  have lt: "sid < length (sessions s)"
    using assms(1) by (simp add: stream_open_def)
  let ?s = "onerror sid s"
  have st: "step (StreamError sid) s = ?s" "step (StreamMessage sid (Error m)) s
      = onmessage sid (Error m) s"
    using assms(1) by simp_all
  have cl: "sid < length (sessions ?s)" "closed (sessions ?s ! sid)"
    using lt by (simp_all add: sessions_onerror)
  have fe: "fetches ?s = fetches s"
    using assms(2) by (simp add: fetches_onerror)
  have rq: "requests_of sid ?s = requests_of sid s"
    using fe by (simp add: requests_of_def fetches_of_def)
  have th: "\<not> isThinking ?s"
    using assms(2,3) by (simp add: isThinking_onerror)
  show ?thesis
    using assms(1) run_closed [OF cl, of evs] rq fe th cl(2)
      run_closed [OF error_event_closes(1,2) [OF lt, of m], of evs]
      error_event_closes(2,3,4) [OF lt, of m]
    by (simp add: st messages_onerror)
qed

theorem partial_stream_failure_no_fallback_witness:
  "stream_open 0 (step (StreamMessage 0 (Chunk [120])) one_pending)
   \<and> hasReceivedData (sessions (step (StreamMessage 0 (Chunk [120])) one_pending) ! 0)
   \<and> \<not> isCompleted (sessions (step (StreamMessage 0 (Chunk [120])) one_pending) ! 0)
   \<and> messages (step (StreamError 0) (step (StreamMessage 0 (Chunk [120])) one_pending))
       = messages (step (StreamMessage 0 (Chunk [120])) one_pending)
   \<and> requests_of 0 (run [StreamError 0, FetchResolved 0 example_result]
         (step (StreamError 0) (step (StreamMessage 0 (Chunk [120])) one_pending))) = []"
proof -
  have a: "stream_open 0 (step (StreamMessage 0 (Chunk [120])) one_pending)"
    "hasReceivedData (sessions (step (StreamMessage 0 (Chunk [120])) one_pending) ! 0)"
    "\<not> isCompleted (sessions (step (StreamMessage 0 (Chunk [120])) one_pending) ! 0)"
    by (simp_all add: eval_defs)
  have r: "requests_of 0 (step (StreamMessage 0 (Chunk [120])) one_pending) = []"
    by (simp add: eval_defs)
  show ?thesis
    using partial_stream_failure_no_fallback [OF a,
        of "[StreamError 0, FetchResolved 0 example_result]"] a r
    by (simp del: step.simps run.simps)
qed

text \<open>
  Claim C4, as stated, fails: after one chunk and a transport failure the transcript is
  what it was before the failure, with no assistant message beyond the welcome text, and
  the partial text stays in the typewriter buffer.
\<close>

theorem partial_stream_failure_silent_counterexample:
  "messages (run [Send (Some [97]), StreamMessage 0 (Chunk [120]), StreamError 0] (initial []))
     = messages (run [Send (Some [97]), StreamMessage 0 (Chunk [120])] (initial []))
   \<and> bot_count (messages
         (run [Send (Some [97]), StreamMessage 0 (Chunk [120]), StreamError 0] (initial [])))
       = bot_count (messages (initial []))
   \<and> typingMessage
         (run [Send (Some [97]), StreamMessage 0 (Chunk [120]), StreamError 0] (initial []))
       = [120]"
  by (simp add: eval_defs)

subsection \<open>Chunks\<close>

text \<open>
  Claim C6, as amended. A \<open>chunk\<close> message on an open stream puts the whole accumulated
  text into the typewriter buffer at once and sets \<open>isTyping\<close>; it leaves the interval
  and the typing index as they were, so it neither starts nor restarts a reveal.
\<close>

theorem chunk_shows_text_at_once:
  assumes "stream_open sid s"
  shows "typingMessage (step (StreamMessage sid (Chunk c)) s)
       = accumulatedText (sessions s ! sid) @ c
     \<and> isTyping (step (StreamMessage sid (Chunk c)) s)
     \<and> typingInterval (step (StreamMessage sid (Chunk c)) s) = typingInterval s
     \<and> typingIndex (step (StreamMessage sid (Chunk c)) s) = typingIndex s"
  using assms by (simp add: stream_open_def handler_defs)

theorem chunk_shows_text_at_once_witness:
  "stream_open 0 one_pending
   \<and> typingMessage (step (StreamMessage 0 (Chunk [104, 105])) one_pending) = [104, 105]
   \<and> typingInterval (step (StreamMessage 0 (Chunk [104, 105])) one_pending) = None"
proof -
  have a: "stream_open 0 one_pending"
    by (simp add: eval_defs)
  have b: "accumulatedText (sessions one_pending ! 0) = []" "typingInterval one_pending = None"
    by (simp_all add: eval_defs)
  show ?thesis
    using chunk_shows_text_at_once [OF a, of "[104, 105]"] a b
    by (simp del: step.simps)
qed

text \<open>
  Claim C6, as stated, fails: after a second chunk the buffer shows both chunks in full
  and no interval is armed, whereas \<open>typeMessage\<close> on the same text would empty the
  buffer and arm the interval; a firing of the interval changes nothing.
\<close>

theorem chunk_does_not_restart_typewriter_counterexample:
  "typingMessage (run [StreamMessage 0 (Chunk [104]), StreamMessage 0 (Chunk [105])] one_pending)
     = [104, 105]
   \<and> typingInterval
        (run [StreamMessage 0 (Chunk [104]), StreamMessage 0 (Chunk [105])] one_pending) = None
   \<and> typingMessage
        (typeMessage [104, 105] (run [StreamMessage 0 (Chunk [104])] one_pending)) = []
   \<and> typingInterval
        (typeMessage [104, 105] (run [StreamMessage 0 (Chunk [104])] one_pending))
       = Some ([104, 105], 30)
   \<and> step IntervalFired
        (run [StreamMessage 0 (Chunk [104]), StreamMessage 0 (Chunk [105])] one_pending)
       = run [StreamMessage 0 (Chunk [104]), StreamMessage 0 (Chunk [105])] one_pending"
  by (simp add: eval_defs typeMessage_def)

lemma run_chunks:
  "stream_open sid s \<Longrightarrow>
     stream_open sid (run (chunk_events sid cs) s)
     \<and> accumulatedText (sessions (run (chunk_events sid cs) s) ! sid)
         = accumulatedText (sessions s ! sid) @ concat cs
     \<and> (cs \<noteq> [] \<longrightarrow>
          typingMessage (run (chunk_events sid cs) s)
            = accumulatedText (sessions s ! sid) @ concat cs)"
proof (induction cs arbitrary: s)
  case Nil
  then show ?case by (simp add: chunk_events_def)
next
  case (Cons c cs)
  let ?s = "step (StreamMessage sid (Chunk c)) s"
  have lt: "sid < length (sessions s)"
    using Cons.prems by (simp add: stream_open_def)
  have o: "stream_open sid ?s"
    using Cons.prems by (simp add: stream_open_def sessions_onmessage)
  have acc: "accumulatedText (sessions ?s ! sid) = accumulatedText (sessions s ! sid) @ c"
    using Cons.prems lt by (simp add: sessions_onmessage)
  have ty: "typingMessage ?s = accumulatedText (sessions s ! sid) @ c"
    using Cons.prems by (simp add: stream_open_def handler_defs)
  have r: "run (chunk_events sid (c # cs)) s = run (chunk_events sid cs) ?s"
    by (simp add: chunk_events_def)
  show ?case
    unfolding r using Cons.IH [OF o] acc ty
    by (cases "cs = []") (simp_all add: chunk_events_def del: step.simps)
qed

lemma chunks_of_foreign:
  assumes "target e \<noteq> Some sid"
  shows "chunks_of sid (e # es) = chunks_of sid es"
proof (cases e)
  case (StreamMessage a d)
  then show ?thesis using assms by (cases d) auto
qed simp_all

lemma foreign_keeps_open:
  assumes "target e \<noteq> Some sid" and "stream_open sid s"
  shows "stream_open sid (step e s)"
    "accumulatedText (sessions (step e s) ! sid) = accumulatedText (sessions s ! sid)"
proof -
  have lt: "sid < length (sessions s)"
    using assms(2) by (simp add: stream_open_def)
  have eq: "sessions (step e s) ! sid = sessions s ! sid"
    using step_other_session [OF assms(1) lt] .
  have "sid < length (sessions (step e s))"
    using lt step_length_sessions [of s e] by simp
  then show "stream_open sid (step e s)"
    using assms(2) eq by (simp add: stream_open_def)
  show "accumulatedText (sessions (step e s) ! sid) = accumulatedText (sessions s ! sid)"
    using eq by simp
qed

lemma own_chunk_keeps_open:
  assumes "stream_open sid s"
  shows "stream_open sid (step (StreamMessage sid (Chunk c)) s)"
    "accumulatedText (sessions (step (StreamMessage sid (Chunk c)) s) ! sid)
       = accumulatedText (sessions s ! sid) @ c"
    "typingMessage (step (StreamMessage sid (Chunk c)) s) = accumulatedText (sessions s ! sid) @ c"
  using assms by (simp_all add: stream_open_def handler_defs)

lemma run_interleaved_chunks:
  "stream_open sid s \<Longrightarrow> list_all (chunk_or_foreign sid) evs \<Longrightarrow>
     stream_open sid (run evs s)
     \<and> accumulatedText (sessions (run evs s) ! sid)
         = accumulatedText (sessions s ! sid) @ concat (chunks_of sid evs)"
proof (induction evs arbitrary: s)
  case Nil
  then show ?case by simp
next
  case (Cons e evs)
  have rest: "list_all (chunk_or_foreign sid) evs"
    using Cons.prems(2) by simp
  show ?case
  proof (cases "target e = Some sid")
    case False
    from foreign_keeps_open [OF False Cons.prems(1)]
      Cons.IH [of "step e s"] rest chunks_of_foreign [OF False, of evs]
    show ?thesis by (simp del: step.simps)
  next
    case True
    then obtain c where e: "e = StreamMessage sid (Chunk c)"
      using Cons.prems(2) by (cases "(sid, e)" rule: chunk_or_foreign.cases) auto
    from own_chunk_keeps_open(1,2) [OF Cons.prems(1), of c]
      Cons.IH [of "step e s"] rest
    show ?thesis unfolding e by (simp del: step.simps)
  qed
qed

text \<open>
  Claim C8. On an open stream whose accumulated text is empty, after the first \<open>i\<close> of
  the chunks \<open>cs\<close> were delivered (\<open>i\<close> at least one) the typewriter buffer and the
  accumulated text of the closure are the concatenation, in order, of these \<open>i\<close> chunks.
  The same holds right after a chunk when events of other closures, submissions and
  firings of the interval came in between the chunks of the query.
\<close>

theorem reveal_target_is_concatenation:
  assumes "stream_open sid s" and "accumulatedText (sessions s ! sid) = []"
    and "0 < i" and "i \<le> length cs"
  shows "typingMessage (run (chunk_events sid (take i cs)) s) = concat (take i cs)
     \<and> accumulatedText (sessions (run (chunk_events sid (take i cs)) s) ! sid)
         = concat (take i cs)
     \<and> (list_all (chunk_or_foreign sid) evs \<longrightarrow>
          typingMessage (step (StreamMessage sid (Chunk c)) (run evs s))
            = concat (chunks_of sid evs) @ c
          \<and> accumulatedText (sessions (step (StreamMessage sid (Chunk c)) (run evs s)) ! sid)
            = concat (chunks_of sid evs) @ c)"
proof -
  have "take i cs \<noteq> []"
    using assms(3,4) by auto
  then have one: "typingMessage (run (chunk_events sid (take i cs)) s) = concat (take i cs)
     \<and> accumulatedText (sessions (run (chunk_events sid (take i cs)) s) ! sid)
         = concat (take i cs)"
    using run_chunks [OF assms(1), of "take i cs"] assms(2) by simp
  have two: "typingMessage (step (StreamMessage sid (Chunk c)) (run evs s))
            = concat (chunks_of sid evs) @ c
          \<and> accumulatedText (sessions (step (StreamMessage sid (Chunk c)) (run evs s)) ! sid)
            = concat (chunks_of sid evs) @ c"
    if h: "list_all (chunk_or_foreign sid) evs"
  proof -
    note r = run_interleaved_chunks [OF assms(1) h]
    have o: "stream_open sid (run evs s)" using r by simp
    show ?thesis
      using own_chunk_keeps_open(2,3) [OF o, of c] r assms(2) by (simp del: step.simps)
  qed
  show ?thesis using one two by blast
qed

theorem reveal_target_is_concatenation_witness:
  "stream_open 0 one_pending \<and> accumulatedText (sessions one_pending ! 0) = []
   \<and> (0::nat) < 2 \<and> 2 \<le> length [example_chunk1, example_chunk2, [33]]
   \<and> typingMessage
        (run (chunk_events 0 (take 2 [example_chunk1, example_chunk2, [33]])) one_pending)
       = example_chunk1 @ example_chunk2
   \<and> list_all (chunk_or_foreign 0)
        [StreamMessage 0 (Chunk example_chunk1), Send (Some [98]), StreamMessage 1 (Chunk [33])]
   \<and> typingMessage
        (step (StreamMessage 0 (Chunk example_chunk2))
           (run [StreamMessage 0 (Chunk example_chunk1), Send (Some [98]),
                 StreamMessage 1 (Chunk [33])] one_pending))
       = example_chunk1 @ example_chunk2"
proof -
  have a: "stream_open 0 one_pending" "accumulatedText (sessions one_pending ! 0) = []"
    by (simp_all add: eval_defs)
  have b: "(0::nat) < 2" "2 \<le> length [example_chunk1, example_chunk2, [33]]"
    by simp_all
  have t: "take 2 [example_chunk1, example_chunk2, [33]] = [example_chunk1, example_chunk2]"
    by (simp add: numeral_2_eq_2)
  have l: "list_all (chunk_or_foreign 0)
        [StreamMessage 0 (Chunk example_chunk1), Send (Some [98]), StreamMessage 1 (Chunk [33])]"
    by simp
  have k: "chunks_of 0
        [StreamMessage 0 (Chunk example_chunk1), Send (Some [98]), StreamMessage 1 (Chunk [33])]
      = [example_chunk1]"
    by simp
  show ?thesis
    using reveal_target_is_concatenation [OF a b,
        where evs = "[StreamMessage 0 (Chunk example_chunk1), Send (Some [98]),
          StreamMessage 1 (Chunk [33])]" and c = example_chunk2] a t l k
    by (simp del: run.simps step.simps)
qed

subsection \<open>Transport errors after completion\<close>

lemma onerror_completed:
  assumes "isCompleted (sessions s ! sid)"
  shows "onerror sid s = upd_session sid (\<lambda>c. c\<lparr>closed := True\<rparr>) s"
proof (cases "sid < length (sessions s)")
  case True
  then show ?thesis using assms by (simp add: onerror_def upd_session_def Let_def)
next
  case False
  then show ?thesis using assms
    by (simp add: onerror_def upd_session_def Let_def list_update_beyond)
qed

lemma terminal_event_completes:
  assumes "stream_open sid s" and "d = Complete r \<or> d = Error m"
  shows "sid < length (sessions (run evs (step (StreamMessage sid d) s)))
     \<and> isCompleted (sessions (run evs (step (StreamMessage sid d) s)) ! sid)
     \<and> closed (sessions (run evs (step (StreamMessage sid d) s)) ! sid)"
proof -
  have lt: "sid < length (sessions s)"
    using assms(1) by (simp add: stream_open_def)
  let ?s = "onmessage sid d s"
  have st: "step (StreamMessage sid d) s = ?s"
    using assms(1) by simp
  have cl: "sid < length (sessions ?s)" "closed (sessions ?s ! sid)"
    "isCompleted (sessions ?s ! sid)"
    using lt assms(2) by (auto simp add: sessions_onmessage)
  show ?thesis
    unfolding st using run_closed [OF cl(1,2), of evs] cl by simp
qed

text \<open>
  Claim C9. Once a \<open>complete\<close> or an \<open>error\<close> message was handled on an open stream,
  then after any further events the flag \<open>isCompleted\<close> of the closure is set, and the
  transport error callback of that closure does nothing but close the event source: the
  transcript, the fallback requests and the thinking indicator are as before.
\<close>

theorem transport_error_after_completion_only_closes:
  assumes "stream_open sid s" and "d = Complete r \<or> d = Error m"
  shows "isCompleted (sessions (run evs (step (StreamMessage sid d) s)) ! sid)
     \<and> onerror sid (run evs (step (StreamMessage sid d) s))
         = upd_session sid (\<lambda>c. c\<lparr>closed := True\<rparr>) (run evs (step (StreamMessage sid d) s))
     \<and> messages (onerror sid (run evs (step (StreamMessage sid d) s)))
         = messages (run evs (step (StreamMessage sid d) s))
     \<and> fetches (onerror sid (run evs (step (StreamMessage sid d) s)))
         = fetches (run evs (step (StreamMessage sid d) s))
     \<and> isThinking (onerror sid (run evs (step (StreamMessage sid d) s)))
         = isThinking (run evs (step (StreamMessage sid d) s))
     \<and> closed (sessions (onerror sid (run evs (step (StreamMessage sid d) s))) ! sid)"
proof -
  let ?s = "run evs (step (StreamMessage sid d) s)"
  have c: "sid < length (sessions ?s)" "isCompleted (sessions ?s ! sid)"
    using terminal_event_completes [OF assms, of evs] by simp_all
  have e: "onerror sid ?s = upd_session sid (\<lambda>c. c\<lparr>closed := True\<rparr>) ?s"
    using onerror_completed [OF c(2)] .
  show ?thesis
    unfolding e using c by (simp add: upd_session_def del: step.simps)
qed

theorem transport_error_after_completion_only_closes_witness:
  "stream_open 0 one_pending
   \<and> isCompleted (sessions (run [IntervalFired]
        (step (StreamMessage 0 (Complete example_result)) one_pending)) ! 0)
   \<and> messages (onerror 0 (run [IntervalFired]
        (step (StreamMessage 0 (Complete example_result)) one_pending)))
       = messages (run [IntervalFired]
        (step (StreamMessage 0 (Complete example_result)) one_pending))
   \<and> fetches (onerror 0 (run [IntervalFired]
        (step (StreamMessage 0 (Complete example_result)) one_pending))) = []"
proof -
  have a: "stream_open 0 one_pending"
    by (simp add: eval_defs)
  have b: "Complete example_result = Complete example_result
      \<or> Complete example_result = Error []"
    by simp
  have f: "fetches (run [IntervalFired]
        (step (StreamMessage 0 (Complete example_result)) one_pending)) = []"
    by (simp add: eval_defs)
  show ?thesis
    using transport_error_after_completion_only_closes [OF a b, of "[IntervalFired]"] a f
    by (simp add: upd_session_def del: step.simps run.simps)
qed

subsection \<open>The text of the reply\<close>

text \<open>
  Claim C10. An absent or null confidence, and a confidence of zero, is rendered as
  \<open>0\<close> followed by the percent sign, and so is an absent or null similarity of a source;
  the message with that text is appended as usual, both by the \<open>complete\<close> case of the
  stream and by the fallback.
\<close>

theorem missing_scores_render_zero:
  "percent_text None = [48] \<and> percent_text (Some (Finite 0)) = [48]
   \<and> reply (r\<lparr>confidence := None\<rparr>)
       = answer r @ [10, 10, 32622, 20449, 24230, 58, 32] @ [48, 37] @ sourcesText (sources r)
   \<and> source_line (i, e\<lparr>similarity := None\<rparr>)
       = digits (i + 1) @ [46, 32] @ source e @ [32, 40, 30456, 20851, 24230, 58, 32]
           @ [48, 37, 41]
   \<and> sourcesText (Some [e\<lparr>similarity := None\<rparr>])
       = [10, 10, 21442, 32771, 26469, 28304, 58, 10] @ [49, 46, 32] @ source e
           @ [32, 40, 30456, 20851, 24230, 58, 32] @ [48, 37, 41]
   \<and> messages (onmessage sid (Complete (r\<lparr>confidence := None\<rparr>)) s)
       = messages s @ [bot_message (reply (r\<lparr>confidence := None\<rparr>))]
   \<and> messages (fetch_finally (fetch_then (r\<lparr>confidence := None\<rparr>) s))
       = messages s @ [bot_message (reply (r\<lparr>confidence := None\<rparr>))]"
proof -
  have a: "reply (r\<lparr>confidence := None\<rparr>)
       = answer r @ [10, 10, 32622, 20449, 24230, 58, 32] @ [48, 37] @ sourcesText (sources r)"
    by (simp add: reply_def percent_text_None)
  have b: "source_line (i, e\<lparr>similarity := None\<rparr>)
       = digits (i + 1) @ [46, 32] @ source e @ [32, 40, 30456, 20851, 24230, 58, 32]
           @ [48, 37, 41]"
    by (simp add: source_line_def percent_text_None)
  have c: "sourcesText (Some [e\<lparr>similarity := None\<rparr>])
       = [10, 10, 21442, 32771, 26469, 28304, 58, 10] @ [49, 46, 32] @ source e
           @ [32, 40, 30456, 20851, 24230, 58, 32] @ [48, 37, 41]"
    by (simp add: sourcesText_def source_line_def percent_text_None digits.simps)
  have d: "messages (onmessage sid (Complete (r\<lparr>confidence := None\<rparr>)) s)
       = messages s @ [bot_message (reply (r\<lparr>confidence := None\<rparr>))]"
    by (simp add: messages_onmessage)
  have e: "messages (fetch_finally (fetch_then (r\<lparr>confidence := None\<rparr>) s))
       = messages s @ [bot_message (reply (r\<lparr>confidence := None\<rparr>))]"
    by (simp add: fetch_finally_def fetch_then_def)
  show ?thesis
    using percent_text_None percent_text_zero a b c d e by blast
qed

theorem missing_scores_render_zero_witness:
  "messages (run [StreamError 0,
       FetchResolved 0 \<lparr>answer = [111, 107], confidence = None,
         sources = Some [\<lparr>source = [97], similarity = None\<rparr>]\<rparr>] one_pending)
     = [bot_message [], user_message [97],
        bot_message ([111, 107] @ [10, 10, 32622, 20449, 24230, 58, 32] @ [48, 37]
          @ [10, 10, 21442, 32771, 26469, 28304, 58, 10] @ [49, 46, 32] @ [97]
          @ [32, 40, 30456, 20851, 24230, 58, 32] @ [48, 37, 41])]"
proof -
  let ?e = "\<lparr>source = [97], similarity = Some (Finite 1)\<rparr>"
  let ?r = "\<lparr>answer = [111, 107], confidence = Some (Finite 1),
    sources = Some [?e\<lparr>similarity := None\<rparr>]\<rparr>"
  have s: "run [StreamError 0, FetchResolved 0 (?r\<lparr>confidence := None\<rparr>)] one_pending
      = fetch_finally (fetch_then (?r\<lparr>confidence := None\<rparr>)
          (settle 0 (onerror 0 one_pending)))"
    by (simp add: eval_defs)
  have m: "messages (settle 0 (onerror 0 one_pending)) = [bot_message [], user_message [97]]"
    by (simp add: eval_defs)
  show ?thesis
    using missing_scores_render_zero [of ?r 0 ?e 0 "settle 0 (onerror 0 one_pending)"] s m
    by (simp del: run.simps)
qed

lemma Math_round_nearest:
  "Math_round (Finite a) = Finite (of_int \<lfloor>a + 1 / 2\<rfloor>)
   \<and> \<bar>of_int \<lfloor>a + 1 / 2\<rfloor> - a\<bar> \<le> 1 / 2"
proof -
  have "of_int \<lfloor>a + 1 / 2\<rfloor> \<le> a + 1 / 2" "a + 1 / 2 < of_int \<lfloor>a + 1 / 2\<rfloor> + 1"
    by linarith+
  then have "\<bar>of_int \<lfloor>a + 1 / 2\<rfloor> - a\<bar> \<le> 1 / 2"
    unfolding abs_le_iff by linarith
  then show ?thesis by (simp add: Math_round_def)
qed

lemma sourcesText_take: "sourcesText (Some xs) = sourcesText (Some (take 2 xs))"
  by (cases xs) (simp_all add: sourcesText_def)

lemma sourcesText_one:
  "sourcesText (Some [a]) = [10, 10, 21442, 32771, 26469, 28304, 58, 10] @ source_line (0, a)"
  by (simp add: sourcesText_def)

lemma sourcesText_more:
  "sourcesText (Some (a # b # ys))
     = [10, 10, 21442, 32771, 26469, 28304, 58, 10] @ source_line (0, a) @ [10]
         @ source_line (1, b)"
  by (simp add: sourcesText_def numeral_2_eq_2)

lemma reply_example:
  "reply example_result =
     [26681, 25454, 25919, 31574, 65292, 34917, 36148, 27604, 20363, 20026, 49, 48, 37, 12290]
       @ [10, 10, 32622, 20449, 24230, 58, 32] @ [57, 50, 37]
       @ [10, 10, 21442, 32771, 26469, 28304, 58, 10, 49, 46, 32]
       @ [32454, 21017, 46, 112, 100, 102]
       @ [32, 40, 30456, 20851, 24230, 58, 32] @ [57, 53, 37] @ [41]"
  by (simp add: reply_def example_result_def example_source_def sourcesText_def
      source_line_def c92_percent_normal c95_percent_normal digits.simps)

lemma complete_step:
  assumes "stream_open sid s"
  shows "closed (sessions (step (StreamMessage sid (Complete r)) s) ! sid)"
    "typingInterval (step (StreamMessage sid (Complete r)) s) = None"
    "\<not> isTyping (step (StreamMessage sid (Complete r)) s)"
    "typingMessage (step (StreamMessage sid (Complete r)) s) = []"
    "messages (step (StreamMessage sid (Complete r)) s) = messages s @ [bot_message (reply r)]"
    "\<not> isThinking (step (StreamMessage sid (Complete r)) s)"
  using assms by (simp_all add: stream_open_def handler_defs)

text \<open>
  Claim C5. A \<open>complete\<close> message on an open stream closes the stream, clears the
  typewriter (no interval, not typing, empty buffer) and appends one entry, of type
  \<open>bot\<close>, whose text is the answer, the confidence label, the confidence as a percentage
  and the text of the sources. The text of the sources depends on the first two sources
  only, one line for each with its number, its name and its similarity as a percentage.
  The percentage is the text of the number that the code computes in doubles:
  \<open>Math.round\<close> gives the integer nearest to the product with a thousand, and for a
  value between 0 and 1 that integer, taken as a number of tenths, is within one
  twentieth of a hundred times the value, up to the rounding of the product (less than
  \<open>1 / 10 ^ 13\<close>). The confidence 0.925 gives \<open>92.5\<close>, and 0.5005, whose product is
  the double just below 500.5, gives \<open>50\<close>; 0.0005 gives \<open>0.1\<close>, a confidence of
  \<open>10 ^ 20\<close> gives \<open>1e+22\<close> and an infinite one gives \<open>Infinity\<close>. The reply to the example payload is the
  answer, \<open>92%\<close> after the confidence label, and one source line with the name of the
  source and \<open>95%\<close>.
\<close>

theorem complete_event_commits_reply:
  assumes "stream_open sid s"
  shows "closed (sessions (step (StreamMessage sid (Complete r)) s) ! sid)
     \<and> typingInterval (step (StreamMessage sid (Complete r)) s) = None
     \<and> \<not> isTyping (step (StreamMessage sid (Complete r)) s)
     \<and> typingMessage (step (StreamMessage sid (Complete r)) s) = []
     \<and> messages (step (StreamMessage sid (Complete r)) s)
         = messages s
             @ [bot_message
                  (answer r @ [10, 10, 32622, 20449, 24230, 58, 32]
                     @ number_to_string
                         (js_divide (Math_round (js_times (or_zero (confidence r)) 1000)) 10)
                     @ [37] @ sourcesText (sources r))]
     \<and> msg_type (last (messages (step (StreamMessage sid (Complete r)) s))) = Bot
     \<and> msg_text (last (messages (step (StreamMessage sid (Complete r)) s)))
         = answer r @ [10, 10, 32622, 20449, 24230, 58, 32]
             @ number_to_string
                 (js_divide (Math_round (js_times (or_zero (confidence r)) 1000)) 10)
             @ [37] @ sourcesText (sources r)
     \<and> sourcesText (Some xs) = sourcesText (Some (take 2 xs))
     \<and> sourcesText (Some []) = []
     \<and> sourcesText (Some [a])
         = [10, 10, 21442, 32771, 26469, 28304, 58, 10] @ source_line (0, a)
     \<and> sourcesText (Some (a # b # ys))
         = [10, 10, 21442, 32771, 26469, 28304, 58, 10] @ source_line (0, a) @ [10]
             @ source_line (1, b)
     \<and> source_line (i, e)
         = digits (i + 1) @ [46, 32] @ source e @ [32, 40, 30456, 20851, 24230, 58, 32]
             @ number_to_string
                 (js_divide (Math_round (js_times (or_zero (similarity e)) 1000)) 10)
             @ [37, 41]
     \<and> Math_round (Finite x) = Finite (of_int \<lfloor>x + 1 / 2\<rfloor>)
     \<and> \<bar>of_int \<lfloor>x + 1 / 2\<rfloor> - x\<bar> \<le> 1 / 2
     \<and> (0 \<le> c \<and> c \<le> 1 \<longrightarrow>
          (\<exists>n. Math_round (js_times (Finite c) 1000) = Finite (of_int n)
             \<and> \<bar>of_int n / 10 - c * 100\<bar> \<le> 1 / 20 + 1 / 10 ^ 13))
     \<and> percent_text (Some (json_number (925 / 1000))) = [57, 50, 46, 53]
     \<and> percent_text (Some (json_number (5005 / 10000))) = [53, 48]
     \<and> percent_text (Some (json_number (5 / 10000))) = [48, 46, 49]
     \<and> percent_text (Some (json_number (10 ^ 20))) = [49, 101, 43, 50, 50]
     \<and> percent_text (Some PosInf) = [73, 110, 102, 105, 110, 105, 116, 121]
     \<and> reply example_result
         = [26681, 25454, 25919, 31574, 65292, 34917, 36148, 27604, 20363, 20026, 49, 48, 37,
            12290]
             @ [10, 10, 32622, 20449, 24230, 58, 32] @ [57, 50, 37]
             @ [10, 10, 21442, 32771, 26469, 28304, 58, 10, 49, 46, 32]
             @ [32454, 21017, 46, 112, 100, 102]
             @ [32, 40, 30456, 20851, 24230, 58, 32] @ [57, 53, 37] @ [41]
     \<and> sublist (answer example_result) (reply example_result)
     \<and> sublist [57, 50, 37] (reply example_result)
     \<and> sublist (source example_source) (reply example_result)
     \<and> sublist [57, 53, 37] (reply example_result)"
proof -
  let ?t = "answer r @ [10, 10, 32622, 20449, 24230, 58, 32]
             @ number_to_string
                 (js_divide (Math_round (js_times (or_zero (confidence r)) 1000)) 10)
             @ [37] @ sourcesText (sources r)"
  have m: "messages (step (StreamMessage sid (Complete r)) s) = messages s @ [bot_message ?t]"
    using complete_step(5) [OF assms, of r] by (simp add: reply_def percent_text_def)
  have la: "msg_type (last (messages (step (StreamMessage sid (Complete r)) s))) = Bot"
    "msg_text (last (messages (step (StreamMessage sid (Complete r)) s))) = ?t"
    unfolding m by (simp_all add: bot_message_def)
  have e: "sourcesText (Some []) = []"
    by (simp add: sourcesText_def)
  have l: "source_line (i, e)
         = digits (i + 1) @ [46, 32] @ source e @ [32, 40, 30456, 20851, 24230, 58, 32]
             @ number_to_string
                 (js_divide (Math_round (js_times (or_zero (similarity e)) 1000)) 10)
             @ [37, 41]"
    by (simp add: source_line_def percent_text_def)
  have p: "0 \<le> c \<and> c \<le> 1 \<longrightarrow>
          (\<exists>n. Math_round (js_times (Finite c) 1000) = Finite (of_int n)
             \<and> \<bar>of_int n / 10 - c * 100\<bar> \<le> 1 / 20 + 1 / 10 ^ 13)"
    using percent_in_range [of c] by blast
  have an: "answer example_result
      = [26681, 25454, 25919, 31574, 65292, 34917, 36148, 27604, 20363, 20026, 49, 48, 37,
         12290]"
    by (simp add: example_result_def)
  have s1: "sublist (answer example_result) (reply example_result)"
    unfolding reply_example an by (rule prefix_imp_sublist) simp
  have s2: "sublist [57, 50, 37] (reply example_result)"
    unfolding reply_example
    using sublist_appendI [of "[57, 50, 37]"
        "[26681, 25454, 25919, 31574, 65292, 34917, 36148, 27604, 20363, 20026, 49, 48, 37,
          12290] @ [10, 10, 32622, 20449, 24230, 58, 32]"]
    by (simp del: sublist_code)
  have s3: "sublist (source example_source) (reply example_result)"
    unfolding reply_example
    using sublist_appendI [of "[32454, 21017, 46, 112, 100, 102]"
        "[26681, 25454, 25919, 31574, 65292, 34917, 36148, 27604, 20363, 20026, 49, 48, 37,
          12290] @ [10, 10, 32622, 20449, 24230, 58, 32] @ [57, 50, 37]
           @ [10, 10, 21442, 32771, 26469, 28304, 58, 10, 49, 46, 32]"]
    by (simp add: example_source_def del: sublist_code)
  have s4: "sublist [57, 53, 37] (reply example_result)"
    unfolding reply_example
    using sublist_appendI [of "[57, 53, 37]"
        "[26681, 25454, 25919, 31574, 65292, 34917, 36148, 27604, 20363, 20026, 49, 48, 37,
          12290] @ [10, 10, 32622, 20449, 24230, 58, 32] @ [57, 50, 37]
           @ [10, 10, 21442, 32771, 26469, 28304, 58, 10, 49, 46, 32]
           @ [32454, 21017, 46, 112, 100, 102] @ [32, 40, 30456, 20851, 24230, 58, 32]"]
    by (simp del: sublist_code)
  show ?thesis
    using complete_step(1,2,3,4) [OF assms, of r] m la sourcesText_take [of xs] e
      sourcesText_one [of a] sourcesText_more [of a b ys] l Math_round_nearest [of x] p
      c925_percent c5005_percent c0005_percent cbig_percent inf_percent reply_example
      s1 s2 s3 s4
    by blast
qed

theorem complete_event_commits_reply_witness:
  "stream_open 0
     (run [Send (Some example_question), StreamMessage 0 (Chunk example_chunk1),
           StreamMessage 0 (Chunk example_chunk2)] (initial []))
   \<and> messages
       (step (StreamMessage 0 (Complete example_result))
          (run [Send (Some example_question), StreamMessage 0 (Chunk example_chunk1),
                StreamMessage 0 (Chunk example_chunk2)] (initial [])))
     = [bot_message [], user_message example_question,
        bot_message
          ([26681, 25454, 25919, 31574, 65292, 34917, 36148, 27604, 20363, 20026, 49, 48, 37,
            12290]
           @ [10, 10, 32622, 20449, 24230, 58, 32] @ [57, 50, 37]
           @ [10, 10, 21442, 32771, 26469, 28304, 58, 10, 49, 46, 32]
           @ [32454, 21017, 46, 112, 100, 102]
           @ [32, 40, 30456, 20851, 24230, 58, 32] @ [57, 53, 37] @ [41])]
   \<and> msg_text (last (messages
       (step (StreamMessage 0 (Complete example_result))
          (run [Send (Some example_question), StreamMessage 0 (Chunk example_chunk1),
                StreamMessage 0 (Chunk example_chunk2)] (initial [])))))
     = [26681, 25454, 25919, 31574, 65292, 34917, 36148, 27604, 20363, 20026, 49, 48, 37,
        12290, 10, 10, 32622, 20449, 24230, 58, 32, 57, 50, 37,
        10, 10, 21442, 32771, 26469, 28304, 58, 10, 49, 46, 32,
        32454, 21017, 46, 112, 100, 102,
        32, 40, 30456, 20851, 24230, 58, 32, 57, 53, 37, 41]
   \<and> typingMessage
       (step (StreamMessage 0 (Complete example_result))
          (run [Send (Some example_question), StreamMessage 0 (Chunk example_chunk1),
                StreamMessage 0 (Chunk example_chunk2)] (initial []))) = []
   \<and> (0::rat) \<le> 1 / 2 \<and> (1::rat) / 2 \<le> 1
   \<and> (\<exists>n. Math_round (js_times (Finite (1 / 2)) 1000) = Finite (of_int n)
         \<and> \<bar>of_int n / 10 - (1::rat) / 2 * 100\<bar> \<le> 1 / 20 + 1 / 10 ^ 13)"
proof -
  let ?s = "run [Send (Some example_question), StreamMessage 0 (Chunk example_chunk1),
           StreamMessage 0 (Chunk example_chunk2)] (initial [])"
  have a: "stream_open 0 ?s"
    by (simp add: eval_defs example_question_def)
  have m: "messages ?s = [bot_message [], user_message example_question]"
    by (simp add: eval_defs example_question_def)
  have n: "number_to_string
      (js_divide (Math_round (js_times (or_zero (confidence example_result)) 1000)) 10)
      = [57, 50]"
    using c92_percent_normal by (simp add: example_result_def percent_text_def)
  have t: "sourcesText (sources example_result)
      = [10, 10, 21442, 32771, 26469, 28304, 58, 10, 49, 46, 32]
           @ [32454, 21017, 46, 112, 100, 102]
           @ [32, 40, 30456, 20851, 24230, 58, 32] @ [57, 53, 37] @ [41]"
    by (simp add: example_result_def example_source_def sourcesText_def source_line_def
        c95_percent_normal digits.simps)
  have an: "answer example_result
      = [26681, 25454, 25919, 31574, 65292, 34917, 36148, 27604, 20363, 20026, 49, 48, 37,
            12290]"
    by (simp add: example_result_def)
  have h: "(0::rat) \<le> 1 / 2 \<and> (1::rat) / 2 \<le> 1"
    by simp
  note th = complete_event_commits_reply [OF a, where r = example_result and c = "1 / 2"]
  have "(0::rat) \<le> 1 / 2 \<and> (1::rat) / 2 \<le> 1 \<longrightarrow>
      (\<exists>n. Math_round (js_times (Finite (1 / 2)) 1000) = Finite (of_int n)
         \<and> \<bar>of_int n / 10 - (1::rat) / 2 * 100\<bar> \<le> 1 / 20 + 1 / 10 ^ 13)"
    by (rule th [THEN conjunct2, THEN conjunct2, THEN conjunct2, THEN conjunct2, THEN conjunct2, THEN conjunct2, THEN conjunct2, THEN conjunct2, THEN conjunct2, THEN conjunct2, THEN conjunct2, THEN conjunct2, THEN conjunct2, THEN conjunct2, THEN conjunct1])
  then have ex: "\<exists>n. Math_round (js_times (Finite (1 / 2)) 1000) = Finite (of_int n)
         \<and> \<bar>of_int n / 10 - (1::rat) / 2 * 100\<bar> \<le> 1 / 20 + 1 / 10 ^ 13"
    using h by (rule mp)
  have ms: "messages (step (StreamMessage 0 (Complete example_result)) ?s)
     = [bot_message [], user_message example_question,
        bot_message
          ([26681, 25454, 25919, 31574, 65292, 34917, 36148, 27604, 20363, 20026, 49, 48, 37,
            12290]
           @ [10, 10, 32622, 20449, 24230, 58, 32] @ [57, 50, 37]
           @ [10, 10, 21442, 32771, 26469, 28304, 58, 10, 49, 46, 32]
           @ [32454, 21017, 46, 112, 100, 102]
           @ [32, 40, 30456, 20851, 24230, 58, 32] @ [57, 53, 37] @ [41])]"
    using th [THEN conjunct2, THEN conjunct2, THEN conjunct2, THEN conjunct2, THEN conjunct1] m n t an by (simp del: step.simps run.simps)
  have tx: "msg_text (last (messages (step (StreamMessage 0 (Complete example_result)) ?s)))
     = [26681, 25454, 25919, 31574, 65292, 34917, 36148, 27604, 20363, 20026, 49, 48, 37,
        12290, 10, 10, 32622, 20449, 24230, 58, 32, 57, 50, 37,
        10, 10, 21442, 32771, 26469, 28304, 58, 10, 49, 46, 32,
        32454, 21017, 46, 112, 100, 102,
        32, 40, 30456, 20851, 24230, 58, 32, 57, 53, 37, 41]"
    using th [THEN conjunct2, THEN conjunct2, THEN conjunct2, THEN conjunct2, THEN conjunct2, THEN conjunct2, THEN conjunct1] n t an by (simp del: step.simps run.simps)
  have ty: "typingMessage (step (StreamMessage 0 (Complete example_result)) ?s) = []"
    by (rule th [THEN conjunct2, THEN conjunct2, THEN conjunct2, THEN conjunct1])
  show ?thesis
    using a ms tx ty h ex by blast
qed

end
